theory Spec2Isabelle
  imports Complex_Main "HOL-Library.Signed_Division"
begin

section \<open>JavaScript values used by the services\<close>

text \<open>
  Strings are lists of 8-bit code units. A thrown value is kept as a value of
  \<open>js_error\<close>; a function that may throw returns \<open>js_error + 'a\<close>, with
  \<open>Inl\<close> for the throw; \<open>ThrownValue\<close> is a thrown value that is not an \<open>Error\<close>,
  kept as its text. \<open>error_message\<close> is
  \<open>err instanceof Error ? err.message : String(err)\<close>. BigInt arithmetic is arithmetic on \<open>int\<close>; BigInt
  division and remainder truncate towards zero (\<open>sdiv\<close>, \<open>smod\<close>).
\<close>

datatype js_error =
    Error string
  | SyntaxError string
  | TypeError string
  | RangeError string
  | ThrownValue string

fun error_message :: "js_error \<Rightarrow> string" where
  "error_message (Error m) = m"
| "error_message (SyntaxError m) = m"
| "error_message (TypeError m) = m"
| "error_message (RangeError m) = m"
| "error_message (ThrownValue v) = v"

definition is_space :: "char \<Rightarrow> bool" where
  \<comment> \<open>The white space and line terminators of ECMAScript below code unit 256.\<close>
  "is_space c = (List.member [CHR 0x09, CHR 0x0A, CHR 0x0B, CHR 0x0C, CHR 0x0D, CHR 0x20, CHR 0xA0] c)"

definition trim :: "string \<Rightarrow> string" where
  "trim s = rev (dropWhile is_space (rev (dropWhile is_space s)))"

definition to_lower_char :: "char \<Rightarrow> char" where
  "to_lower_char c =
     (case map_of (zip ''ABCDEFGHIJKLMNOPQRSTUVWXYZ'' ''abcdefghijklmnopqrstuvwxyz'') c of
        None \<Rightarrow> c
      | Some l \<Rightarrow> l)"

definition toLowerCase :: "string \<Rightarrow> string" where
  \<comment> \<open>\<open>String.prototype.toLowerCase\<close> on the ASCII letters.\<close>
  "toLowerCase s = map to_lower_char s"

subsection \<open>Decimal text of integers\<close>

definition digit_char :: "nat \<Rightarrow> char" where
  "digit_char d = ''0123456789'' ! d"

fun show_nat :: "nat \<Rightarrow> string" where
  "show_nat n = (if n < 10 then [digit_char n] else show_nat (n div 10) @ [digit_char (n mod 10)])"

declare show_nat.simps [simp del]

definition bigint_toString :: "int \<Rightarrow> string" where
  \<comment> \<open>\<open>BigInt.prototype.toString()\<close>, also the text of an integral Number.\<close>
  "bigint_toString k = (if k < 0 then CHR ''-'' # show_nat (nat (- k)) else show_nat (nat k))"

definition digit_val :: "char \<Rightarrow> nat option" where
  "digit_val c =
     (let n = (of_char c :: nat) in
      if 48 \<le> n \<and> n \<le> 57 then Some (n - 48)
      else if 97 \<le> n \<and> n \<le> 122 then Some (n - 87)
      else if 65 \<le> n \<and> n \<le> 90 then Some (n - 55)
      else None)"

fun parse_digits :: "nat \<Rightarrow> nat \<Rightarrow> string \<Rightarrow> nat option" where
  "parse_digits b acc [] = Some acc"
| "parse_digits b acc (c # cs) =
     (case digit_val c of
        None \<Rightarrow> None
      | Some d \<Rightarrow> if d < b then parse_digits b (acc * b + d) cs else None)"

definition parse_radix :: "nat \<Rightarrow> string \<Rightarrow> int option" where
  "parse_radix b ds = (if ds = [] then None else map_option int (parse_digits b 0 ds))"

fun string_to_bigint :: "string \<Rightarrow> int option" where
  "string_to_bigint [] = Some 0"
| "string_to_bigint (c # cs) =
     (if c = CHR ''0'' \<and> cs \<noteq> [] \<and> List.member ''xX'' (hd cs) then parse_radix 16 (tl cs)
      else if c = CHR ''0'' \<and> cs \<noteq> [] \<and> List.member ''oO'' (hd cs) then parse_radix 8 (tl cs)
      else if c = CHR ''0'' \<and> cs \<noteq> [] \<and> List.member ''bB'' (hd cs) then parse_radix 2 (tl cs)
      else if c = CHR ''+'' then parse_radix 10 cs
      else if c = CHR ''-'' then map_option uminus (parse_radix 10 cs)
      else parse_radix 10 (c # cs))"

definition BigInt :: "string \<Rightarrow> js_error + int" where
  \<comment> \<open>\<open>BigInt(text)\<close>: StringToBigInt of the trimmed text, a SyntaxError otherwise.\<close>
  "BigInt s =
     (case string_to_bigint (trim s) of
        None \<Rightarrow> Inl (SyntaxError (''Cannot convert '' @ s @ '' to a BigInt''))
      | Some k \<Rightarrow> Inr k)"

definition padStart :: "nat \<Rightarrow> char \<Rightarrow> string \<Rightarrow> string" where
  "padStart n c s = replicate (n - length s) c @ s"

definition padEnd :: "nat \<Rightarrow> char \<Rightarrow> string \<Rightarrow> string" where
  "padEnd n c s = s @ replicate (n - length s) c"

section \<open>Order selector: \<open>selectOrdersForBudget\<close>\<close>

record SellOrder =
  order_id :: string
  seller :: string
  batch_denom :: string
  quantity :: string
  quantity_micro :: "int option"
  ask_denom :: string
  ask_amount :: string
  disable_auto_retire :: bool
  expiration :: "int option"

text \<open>
  \<open>quantity_micro\<close> is the value of \<open>Math.floor(parseFloat(quantity) * 1_000_000)\<close>
  in the double arithmetic of the platform, \<open>None\<close> when \<open>parseFloat(quantity)\<close> is
  not finite. \<open>expiration\<close> is the time value in milliseconds of
  \<open>new Date(order.expiration)\<close>, \<open>None\<close> when the field is null, empty or not a date
  (every comparison with an invalid date is false).
\<close>

record CreditClass =
  class_id :: string
  credit_type_abbrev :: string

record AllowedDenom =
  bank_denom :: string
  display_denom :: string
  denom_exponent :: int

datatype CreditType = Carbon | Biodiversity

record DenomInfo =
  bankDenom :: string
  displayDenom :: string
  exponent :: int

definition denom_info :: "AllowedDenom \<Rightarrow> DenomInfo" where
  "denom_info d =
     \<lparr>bankDenom = bank_denom d, displayDenom = display_denom d, exponent = denom_exponent d\<rparr>"

definition pickDenom :: "AllowedDenom list \<Rightarrow> string option \<Rightarrow> DenomInfo" where
  "pickDenom allowedDenoms preferred =
     (let fallthrough =
        (case find (\<lambda>d. display_denom d = ''REGEN'' \<or> bank_denom d = ''uregen'') allowedDenoms of
           Some regen \<Rightarrow> denom_info regen
         | None \<Rightarrow>
            (case allowedDenoms of
               first # _ \<Rightarrow> denom_info first
             | [] \<Rightarrow> \<lparr>bankDenom = ''uregen'', displayDenom = ''REGEN'', exponent = 6\<rparr>))
      in case preferred of
           None \<Rightarrow> fallthrough
         | Some p \<Rightarrow>
            if p = [] then fallthrough
            else (case find (\<lambda>d. toLowerCase (bank_denom d) = toLowerCase p \<or>
                                  toLowerCase (display_denom d) = toLowerCase p) allowedDenoms of
                    Some m \<Rightarrow> denom_info m
                  | None \<Rightarrow> fallthrough))"

definition toMicroQuantityString :: "int \<Rightarrow> string" where
  "toMicroQuantityString microQuantity =
     bigint_toString (microQuantity sdiv 1000000) @ ''.'' @
     padStart 6 (CHR ''0'') (bigint_toString (microQuantity smod 1000000))"

record BudgetSelectedOrder =
  sellOrderId :: string
  batchDenom :: string
  sel_quantity :: string
  askAmount :: string
  askDenom :: string
  costMicro :: int

record BudgetOrderSelection =
  orders :: "BudgetSelectedOrder list"
  totalQuantity :: string
  totalCostMicro :: int
  remainingBudgetMicro :: int
  paymentDenom :: string
  sel_displayDenom :: string
  sel_exponent :: int
  exhaustedBudget :: bool

definition classTypeMap :: "CreditClass list \<Rightarrow> string \<Rightarrow> string option" where
  \<comment> \<open>The \<open>Map\<close> filled by \<open>set\<close> in list order: a later class of the same id wins.\<close>
  "classTypeMap classes = map_of (rev (map (\<lambda>cls. (class_id cls, credit_type_abbrev cls)) classes))"

definition credit_type_ok :: "(string \<Rightarrow> string option) \<Rightarrow> CreditType option \<Rightarrow> SellOrder \<Rightarrow> bool" where
  "credit_type_ok ctm creditType order =
     (case creditType of
        None \<Rightarrow> True
      | Some t \<Rightarrow>
         (case ctm (takeWhile (\<lambda>c. c \<noteq> CHR ''-'') (batch_denom order)) of
            None \<Rightarrow> False
          | Some abbrev \<Rightarrow>
             if abbrev = [] then False
             else if t = Carbon \<and> abbrev \<noteq> ''C'' then False
             else if t = Biodiversity \<and> abbrev = ''C'' then False
             else True))"

definition is_eligible ::
  "(string \<Rightarrow> string option) \<Rightarrow> DenomInfo \<Rightarrow> CreditType option \<Rightarrow> int \<Rightarrow> SellOrder \<Rightarrow> bool" where
  "is_eligible ctm denomInfo creditType now order =
     (if disable_auto_retire order then False
      else if ask_denom order \<noteq> bankDenom denomInfo then False
      else if \<not> credit_type_ok ctm creditType order then False
      else (case expiration order of
              Some expDate \<Rightarrow> if expDate \<le> now then False else True
            | None \<Rightarrow> True))"

fun all_prices :: "SellOrder list \<Rightarrow> js_error + int list" where
  "all_prices [] = Inr []"
| "all_prices (order # rest) =
     (case BigInt (ask_amount order) of
        Inl e \<Rightarrow> Inl e
      | Inr p \<Rightarrow> (case all_prices rest of Inl e \<Rightarrow> Inl e | Inr ps \<Rightarrow> Inr (p # ps)))"

definition sort_by_price :: "SellOrder list \<Rightarrow> js_error + SellOrder list" where
  \<comment> \<open>\<open>eligible.sort\<close> with the comparator on \<open>BigInt(ask_amount)\<close>: stable. The
      comparator runs, and may throw, only when there are two orders to compare.\<close>
  "sort_by_price eligible =
     (if length eligible < 2 then Inr eligible
      else (case all_prices eligible of
              Inl e \<Rightarrow> Inl e
            | Inr ps \<Rightarrow> Inr (map snd (sort_key fst (zip ps eligible)))))"

record LoopState =
  remainingBudget :: int
  totalQuantityMicro :: int
  loop_totalCostMicro :: int
  selected :: "BudgetSelectedOrder list"

definition MICRO_CREDITS :: int where
  "MICRO_CREDITS = 1000000"

definition select_step :: "LoopState \<Rightarrow> SellOrder \<Rightarrow> js_error + LoopState" where
  \<comment> \<open>One pass of the loop body; \<open>continue\<close> leaves the state as it is.\<close>
  "select_step st order =
     (case quantity_micro order of
        None \<Rightarrow> Inr st
      | Some availableMicro \<Rightarrow>
         if availableMicro \<le> 0 then Inr st
         else (case BigInt (ask_amount order) of
           Inl e \<Rightarrow> Inl e
         | Inr pricePerCreditMicro \<Rightarrow>
            if pricePerCreditMicro \<le> 0 then Inr st
            else
              let affordableMicro = (remainingBudget st * MICRO_CREDITS) sdiv pricePerCreditMicro in
              if affordableMicro \<le> 0 then Inr st
              else
                let takeMicro =
                  (if availableMicro < affordableMicro then availableMicro else affordableMicro) in
                if takeMicro \<le> 0 then Inr st
                else
                  let cost = (pricePerCreditMicro * takeMicro + MICRO_CREDITS - 1) sdiv MICRO_CREDITS in
                  if cost \<le> 0 \<or> cost > remainingBudget st then Inr st
                  else Inr
                    \<lparr>remainingBudget = remainingBudget st - cost,
                     totalQuantityMicro = totalQuantityMicro st + takeMicro,
                     loop_totalCostMicro = loop_totalCostMicro st + cost,
                     selected = selected st @
                       [\<lparr>sellOrderId = order_id order,
                         batchDenom = batch_denom order,
                         sel_quantity = toMicroQuantityString takeMicro,
                         askAmount = ask_amount order,
                         askDenom = ask_denom order,
                         costMicro = cost\<rparr>]\<rparr>))"

fun budget_loop :: "LoopState \<Rightarrow> SellOrder list \<Rightarrow> js_error + LoopState" where
  "budget_loop st [] = Inr st"
| "budget_loop st (order # rest) =
     (if remainingBudget st \<le> 0 then Inr st
      else (case select_step st order of
              Inl e \<Rightarrow> Inl e
            | Inr st2 \<Rightarrow> budget_loop st2 rest))"

record Ledger =
  listSellOrders :: "js_error + SellOrder list"
  listCreditClasses :: "js_error + CreditClass list"
  getAllowedDenoms :: "js_error + AllowedDenom list"

text \<open>
  The ledger is what its three read operations answer (a rejection is \<open>Inl\<close>); the
  reads a call performs are logged beside its result.
\<close>

datatype LedgerCall = ListSellOrders | ListCreditClasses | GetAllowedDenoms

definition promise_all3 ::
  "js_error + 'a \<Rightarrow> js_error + 'b \<Rightarrow> js_error + 'c \<Rightarrow> js_error + ('a \<times> 'b \<times> 'c)" where
  "promise_all3 a b c =
     (case a of Inl e \<Rightarrow> Inl e | Inr x \<Rightarrow>
       (case b of Inl e \<Rightarrow> Inl e | Inr y \<Rightarrow>
         (case c of Inl e \<Rightarrow> Inl e | Inr z \<Rightarrow> Inr (x, y, z))))"

definition selectOrdersForBudget ::
  "Ledger \<Rightarrow> int \<Rightarrow> CreditType option \<Rightarrow> int \<Rightarrow> string option
     \<Rightarrow> (js_error + BudgetOrderSelection) \<times> LedgerCall list" where
  "selectOrdersForBudget ledger now creditType budgetMicro preferredDenom =
     (if budgetMicro \<le> 0 then (Inl (Error ''budgetMicro must be greater than zero''), [])
      else
       (case promise_all3 (listSellOrders ledger) (listCreditClasses ledger) (getAllowedDenoms ledger) of
          Inl e \<Rightarrow> Inl e
        | Inr (sellOrders, classes, allowedDenoms) \<Rightarrow>
           let denomInfo = pickDenom allowedDenoms preferredDenom;
               eligible = filter (is_eligible (classTypeMap classes) denomInfo creditType now) sellOrders
           in (case sort_by_price eligible of
                 Inl e \<Rightarrow> Inl e
               | Inr sortedOrders \<Rightarrow>
                  (case budget_loop
                          \<lparr>remainingBudget = budgetMicro, totalQuantityMicro = 0,
                           loop_totalCostMicro = 0, selected = []\<rparr> sortedOrders of
                     Inl e \<Rightarrow> Inl e
                   | Inr st \<Rightarrow>
                      Inr \<lparr>orders = selected st,
                           totalQuantity = toMicroQuantityString (totalQuantityMicro st),
                           totalCostMicro = loop_totalCostMicro st,
                           remainingBudgetMicro = remainingBudget st,
                           paymentDenom = bankDenom denomInfo,
                           sel_displayDenom = displayDenom denomInfo,
                           sel_exponent = exponent denomInfo,
                           exhaustedBudget = (remainingBudget st = 0)\<rparr>)),
        [ListSellOrders, ListCreditClasses, GetAllowedDenoms]))"

subsection \<open>Predicates and fixtures for the budget bound\<close>

fun within_budget :: "int \<Rightarrow> BudgetSelectedOrder list \<Rightarrow> bool" where
  "within_budget r [] = True"
| "within_budget r (x # xs) =
     (0 < costMicro x \<and> costMicro x \<le> r \<and> within_budget (r - costMicro x) xs)"

definition loop_inv :: "int \<Rightarrow> LoopState \<Rightarrow> bool" where
  "loop_inv B st =
     (within_budget B (selected st) \<and>
      remainingBudget st = B - sum_list (map costMicro (selected st)) \<and>
      loop_totalCostMicro st = sum_list (map costMicro (selected st)))"

definition charged :: "BudgetSelectedOrder \<Rightarrow> bool" where
  \<comment> \<open>The cost of a selected order is the ceiling of price times quantity taken.\<close>
  "charged x =
     (\<exists>price takeMicro.
        BigInt (askAmount x) = Inr price \<and> 0 < price \<and> 0 < takeMicro \<and>
        sel_quantity x = toMicroQuantityString takeMicro \<and>
        costMicro x = ceiling ((of_int (price * takeMicro) :: real) / 1000000))"

definition scenario_order :: "string \<Rightarrow> string \<Rightarrow> string \<Rightarrow> int \<Rightarrow> SellOrder" where
  \<comment> \<open>The order fixture of the selector's tests, with the ask and the quantity given.\<close>
  "scenario_order i a q qm =
     \<lparr>order_id = i, seller = ''regen1seller'', batch_denom = ''C01-001-2026'',
      quantity = q, quantity_micro = Some qm, ask_denom = ''uregen'', ask_amount = a,
      disable_auto_retire = False, expiration = None\<rparr>"

definition scenario_ledger :: "SellOrder list \<Rightarrow> Ledger" where
  "scenario_ledger sellOrders =
     \<lparr>listSellOrders = Inr sellOrders,
      listCreditClasses = Inr [\<lparr>class_id = ''C01'', credit_type_abbrev = ''C''\<rparr>],
      getAllowedDenoms =
        Inr [\<lparr>bank_denom = ''uregen'', display_denom = ''REGEN'', denom_exponent = 6\<rparr>]\<rparr>"

definition orders_5_5 :: "SellOrder list" where
  "orders_5_5 =
     [scenario_order ''first'' ''1000'' ''5'' 5000000,
      scenario_order ''second'' ''2000'' ''5'' 5000000]"

definition orders_1_5 :: "SellOrder list" where
  "orders_1_5 =
     [scenario_order ''second'' ''2000'' ''5'' 5000000,
      scenario_order ''first'' ''1000'' ''1'' 1000000]"

section \<open>Payment server: the prepaid-balance store and \<open>POST /webhook\<close>\<close>

datatype TxnType = Topup | Retirement

record User =
  user_id :: nat
  api_key :: string
  email :: "string option"
  balance_cents :: int
  stripe_customer_id :: "string option"

record Transaction =
  txn_id :: nat
  txn_user_id :: nat
  txn_type :: TxnType
  amount_cents :: int
  description :: "string option"
  stripe_session_id :: "string option"
  retirement_tx_hash :: "string option"
  credit_class :: "string option"

record Db =
  users :: "User list"
  transactions :: "Transaction list"
  next_user_id :: nat
  next_txn_id :: nat

text \<open>
  The two tables in row order, with the next values of their \<open>AUTOINCREMENT\<close> keys.
  The timestamp columns and \<open>credits_retired\<close> play no part below and are left out.
\<close>

definition getUserByApiKey :: "Db \<Rightarrow> string \<Rightarrow> User option" where
  "getUserByApiKey db apiKey = find (\<lambda>u. api_key u = apiKey) (users db)"

definition getUserByEmail :: "Db \<Rightarrow> string \<Rightarrow> User option" where
  "getUserByEmail db e = find (\<lambda>u. email u = Some e) (users db)"

definition createUser :: "string \<Rightarrow> Db \<Rightarrow> string option \<Rightarrow> string option \<Rightarrow> js_error + (User \<times> Db)" where
  \<comment> \<open>\<open>apiKey\<close> is the key \<open>generateApiKey()\<close> drew; the column is \<open>UNIQUE\<close>.\<close>
  "createUser apiKey db e stripeCustomerId =
     (if getUserByApiKey db apiKey \<noteq> None
      then Inl (Error ''UNIQUE constraint failed: users.api_key'')
      else
        let u = \<lparr>user_id = next_user_id db, api_key = apiKey, email = e,
                 balance_cents = 0, stripe_customer_id = stripeCustomerId\<rparr>
        in Inr (u, db\<lparr>users := users db @ [u], next_user_id := Suc (next_user_id db)\<rparr>))"

definition creditBalance :: "Db \<Rightarrow> nat \<Rightarrow> int \<Rightarrow> string \<Rightarrow> string \<Rightarrow> js_error + Db" where
  \<comment> \<open>One database transaction: the update of the balance, then the insert of the
      top-up row, whose \<open>user_id\<close> is a foreign key.\<close>
  "creditBalance db userId amountCents stripeSessionId descr =
     (if find (\<lambda>u. user_id u = userId) (users db) = None
      then Inl (Error ''FOREIGN KEY constraint failed'')
      else Inr (db\<lparr>users :=
                     map (\<lambda>u. if user_id u = userId
                               then u\<lparr>balance_cents := balance_cents u + amountCents\<rparr> else u)
                       (users db),
                   transactions := transactions db @
                     [\<lparr>txn_id = next_txn_id db, txn_user_id = userId, txn_type = Topup,
                       amount_cents = amountCents, description = Some descr,
                       stripe_session_id = Some stripeSessionId,
                       retirement_tx_hash = None, credit_class = None\<rparr>],
                   next_txn_id := Suc (next_txn_id db)\<rparr>))"

record CheckoutSession =
  session_id :: string
  amount_total :: "int option"
  customer_email :: "string option"
  customer_details_email :: "string option"
  customer :: "string option"

text \<open>
  \<open>customer\<close> is \<open>Some\<close> when \<open>session.customer\<close> is a string, and
  \<open>customer_details_email\<close> is \<open>session.customer_details?.email\<close>.
\<close>

record StripeEvent =
  event_id :: string
  event_type :: string
  data_object :: CheckoutSession

record WebhookRequest =
  stripe_signature :: "string option"
  raw_body :: string

datatype ResponseBody = Received | ErrorBody string

record Response =
  status :: nat
  json :: ResponseBody

definition truthy :: "string option \<Rightarrow> bool" where
  "truthy v = (case v of None \<Rightarrow> False | Some s \<Rightarrow> s \<noteq> [])"

definition toFixed2 :: "int \<Rightarrow> string" where
  \<comment> \<open>\<open>(cents / 100).toFixed(2)\<close> for a whole number of cents.\<close>
  "toFixed2 cents =
     (if cents < 0 then ''-'' else []) @ show_nat (nat \<bar>cents\<bar> div 100) @ ''.'' @
     padStart 2 (CHR ''0'') (show_nat (nat \<bar>cents\<bar> mod 100))"

definition handle_checkout_completed :: "string \<Rightarrow> CheckoutSession \<Rightarrow> Db \<Rightarrow> js_error + Db" where
  "handle_checkout_completed apiKey session db =
     (let amountCents = (case amount_total session of Some a \<Rightarrow> a | None \<Rightarrow> 0);
          e = (case customer_email session of
                 Some x \<Rightarrow> Some x
               | None \<Rightarrow> customer_details_email session);
          stripeCustomerId = customer session;
          found = (if truthy e then getUserByEmail db (the e) else None)
      in case (case found of
                 Some u \<Rightarrow> Inr (u, db)
               | None \<Rightarrow> createUser apiKey db e stripeCustomerId) of
           Inl err \<Rightarrow> Inl err
         | Inr (u, db1) \<Rightarrow>
            creditBalance db1 (user_id u) amountCents (session_id session)
              (''Stripe top-up: $'' @ toFixed2 amountCents))"

definition decode_event ::
  "(string \<Rightarrow> string \<Rightarrow> string \<Rightarrow> js_error + StripeEvent) \<Rightarrow> (string \<Rightarrow> js_error + StripeEvent)
     \<Rightarrow> string option \<Rightarrow> WebhookRequest \<Rightarrow> Response + (js_error + StripeEvent)" where
  \<comment> \<open>\<open>constructEvent\<close> is \<open>stripe.webhooks.constructEvent\<close> (signature check and
      decoding), \<open>parseBody\<close> the plain decoding of the raw body, \<open>webhookSecret\<close> the
      value of \<open>STRIPE_WEBHOOK_SECRET\<close>. \<open>Inl\<close> is the response that ends the request.\<close>
  "decode_event constructEvent parseBody webhookSecret req =
     (if truthy webhookSecret \<and> truthy (stripe_signature req)
      then (case constructEvent (raw_body req) (the (stripe_signature req)) (the webhookSecret) of
              Inl err \<Rightarrow> Inl \<lparr>status = 400, json = ErrorBody (''Webhook Error: '' @ error_message err)\<rparr>
            | Inr ev \<Rightarrow> Inr (Inr ev))
      else Inr (parseBody (raw_body req)))"

definition webhook ::
  "(string \<Rightarrow> string \<Rightarrow> string \<Rightarrow> js_error + StripeEvent) \<Rightarrow> (string \<Rightarrow> js_error + StripeEvent)
     \<Rightarrow> string option \<Rightarrow> string \<Rightarrow> WebhookRequest \<Rightarrow> Db \<Rightarrow> (js_error + Response) \<times> Db" where
  "webhook constructEvent parseBody webhookSecret apiKey req db =
     (case decode_event constructEvent parseBody webhookSecret req of
        Inl rejected \<Rightarrow> (Inr rejected, db)
      | Inr (Inl err) \<Rightarrow> (Inl err, db)
      | Inr (Inr ev) \<Rightarrow>
         if event_type ev = ''checkout.session.completed''
         then (case handle_checkout_completed apiKey (data_object ev) db of
                 Inl err \<Rightarrow> (Inl err, db)
               | Inr db2 \<Rightarrow> (Inr \<lparr>status = 200, json = Received\<rparr>, db2))
         else (Inr \<lparr>status = 200, json = Received\<rparr>, db))"

subsection \<open>A delivery without a signature header, and a replayed delivery\<close>

definition topup_event :: StripeEvent where
  "topup_event =
     \<lparr>event_id = ''evt_1'', event_type = ''checkout.session.completed'',
      data_object = \<lparr>session_id = ''cs_1'', amount_total = Some 1000,
                      customer_email = Some ''user@example.com'',
                      customer_details_email = None, customer = None\<rparr>\<rparr>"

definition unsigned_request :: WebhookRequest where
  "unsigned_request = \<lparr>stripe_signature = None, raw_body = ''{...}''\<rparr>"

definition signed_request :: WebhookRequest where
  "signed_request = \<lparr>stripe_signature = Some ''t=1,v1=abc'', raw_body = ''{...}''\<rparr>"

definition reject_all :: "string \<Rightarrow> string \<Rightarrow> string \<Rightarrow> js_error + StripeEvent" where
  "reject_all body sig secret =
     Inl (Error ''No signatures found matching the expected signature for payload'')"

definition accept_all :: "string \<Rightarrow> string \<Rightarrow> string \<Rightarrow> js_error + StripeEvent" where
  "accept_all body sig secret = Inr topup_event"

definition parse_topup :: "string \<Rightarrow> js_error + StripeEvent" where
  "parse_topup body = Inr topup_event"

definition empty_db :: Db where
  "empty_db = \<lparr>users = [], transactions = [], next_user_id = 1, next_txn_id = 1\<rparr>"

definition balance_of :: "Db \<Rightarrow> string \<Rightarrow> int" where
  "balance_of db e = (case getUserByEmail db e of None \<Rightarrow> 0 | Some u \<Rightarrow> balance_cents u)"

definition topup_row :: "nat \<Rightarrow> nat \<Rightarrow> int \<Rightarrow> string \<Rightarrow> Transaction" where
  "topup_row i uid a sid =
     \<lparr>txn_id = i, txn_user_id = uid, txn_type = Topup, amount_cents = a,
      description = Some (''Stripe top-up: $'' @ toFixed2 a), stripe_session_id = Some sid,
      retirement_tx_hash = None, credit_class = None\<rparr>"

section \<open>Subscription invoices: the paginated walk and the pool sync\<close>

record StripeInvoice =
  inv_id :: string
  inv_customer :: "string option"
  inv_customer_email :: "string option"
  inv_subscription :: "string option"
  inv_amount_paid :: "int option"
  inv_currency :: "string option"
  inv_paid_at :: "int option"
  inv_line_price_id :: "string option"

text \<open>
  \<open>inv_paid_at\<close> is \<open>status_transitions?.paid_at\<close> in epoch seconds and
  \<open>inv_line_price_id\<close> is \<open>lines?.data?.[0]?.price?.id\<close>.
\<close>

record StripeListResponse =
  data :: "StripeInvoice list"
  has_more :: "bool option"

record PaidInvoice =
  invoiceId :: string
  customerId :: string
  customerEmail :: "string option"
  subscriptionId :: "string option"
  priceId :: "string option"
  amountPaidCents :: int
  paidAt :: string

record PaidInvoiceAcrossCustomersResult =
  invoices :: "PaidInvoice list"
  truncated :: bool
  hasMore :: bool
  pageCount :: nat
  maxPages :: int

definition or_else :: "string option \<Rightarrow> string option \<Rightarrow> string option" where
  \<comment> \<open>\<open>a || b\<close> on optional strings: the empty string is falsy.\<close>
  "or_else a b = (if truthy a then a else b)"

definition clampInvoiceFetchLimit :: "int option \<Rightarrow> int" where
  \<comment> \<open>\<open>None\<close>: the option is absent or not an integral number.\<close>
  "clampInvoiceFetchLimit rawLimit =
     (case rawLimit of Some l \<Rightarrow> min 100 (max 1 l) | None \<Rightarrow> 100)"

definition clampMaxPages :: "int option \<Rightarrow> int" where
  "clampMaxPages rawMaxPages =
     (case rawMaxPages of Some m \<Rightarrow> min 50 (max 1 m) | None \<Rightarrow> 10)"

definition normalizePaidInvoice ::
  "(int \<Rightarrow> string) \<Rightarrow> StripeInvoice \<Rightarrow> (string \<times> string option) option \<Rightarrow> PaidInvoice option" where
  \<comment> \<open>\<open>toISOString\<close> is \<open>new Date(ms).toISOString()\<close>; \<open>fallbackCustomer\<close> is the
      id and email of the customer, when one is given.\<close>
  "normalizePaidInvoice toISOString invoice fallbackCustomer =
     (let paidAtEpoch = inv_paid_at invoice;
          amount = inv_amount_paid invoice;
          currency = toLowerCase (case inv_currency invoice of Some c \<Rightarrow> c | None \<Rightarrow> []);
          cust = or_else (inv_customer invoice) (map_option fst fallbackCustomer)
      in if \<not> truthy cust then None
         else if paidAtEpoch = None \<or> paidAtEpoch = Some 0 then None
         else if amount = None \<or> amount = Some 0 then None
         else if the amount \<le> 0 then None
         else if currency \<noteq> ''usd'' then None
         else Some \<lparr>invoiceId = inv_id invoice,
                    customerId = the cust,
                    customerEmail = or_else (inv_customer_email invoice)
                                      (case fallbackCustomer of Some (_, e) \<Rightarrow> e | None \<Rightarrow> None),
                    subscriptionId = inv_subscription invoice,
                    priceId = inv_line_price_id invoice,
                    amountPaidCents = the amount,
                    paidAt = toISOString (the paidAtEpoch * 1000)\<rparr>)"

record WalkState =
  results :: "PaidInvoice list"
  startingAfter :: "string option"
  walk_pageCount :: nat
  walk_hasMore :: bool
  reachedEnd :: bool

fun walk_pages ::
  "(int \<Rightarrow> string option \<Rightarrow> js_error + StripeListResponse) \<Rightarrow> (int \<Rightarrow> string) \<Rightarrow> int
     \<Rightarrow> nat \<Rightarrow> WalkState \<Rightarrow> js_error + WalkState" where
  \<comment> \<open>The \<open>for\<close> loop with \<open>n\<close> pages still allowed. \<open>getInvoices limit startingAfter\<close>
      is the request \<open>GET /invoices\<close> for paid invoices.\<close>
  "walk_pages getInvoices toISOString limit 0 st = Inr st"
| "walk_pages getInvoices toISOString limit (Suc n) st =
     (case getInvoices limit (startingAfter st) of
        Inl e \<Rightarrow> Inl e
      | Inr page \<Rightarrow>
         let st1 = st\<lparr>walk_pageCount := walk_pageCount st + 1,
                      results := results st @
                        List.map_filter (\<lambda>invoice. normalizePaidInvoice toISOString invoice None)
                          (data page),
                      walk_hasMore := (has_more page = Some True)\<rparr>;
             lastId = (if data page = [] then None else Some (inv_id (last (data page))))
         in if \<not> walk_hasMore st1 then Inr (st1\<lparr>reachedEnd := True\<rparr>)
            else if \<not> truthy lastId then Inr st1
            else walk_pages getInvoices toISOString limit n (st1\<lparr>startingAfter := lastId\<rparr>))"

definition listPaidInvoicesAcrossCustomers ::
  "(int \<Rightarrow> string option \<Rightarrow> js_error + StripeListResponse) \<Rightarrow> (int \<Rightarrow> string)
     \<Rightarrow> (PaidInvoice list \<Rightarrow> PaidInvoice list)
     \<Rightarrow> int option \<Rightarrow> int option \<Rightarrow> js_error + PaidInvoiceAcrossCustomersResult" where
  \<comment> \<open>\<open>sortByPaidAt\<close> is \<open>Array.prototype.sort\<close> with \<open>localeCompare\<close> on
      \<open>paidAt\<close>.\<close>
  "listPaidInvoicesAcrossCustomers getInvoices toISOString sortByPaidAt rawLimit rawMaxPages =
     (case walk_pages getInvoices toISOString (clampInvoiceFetchLimit rawLimit)
             (nat (clampMaxPages rawMaxPages))
             \<lparr>results = [], startingAfter = None, walk_pageCount = 0,
              walk_hasMore = False, reachedEnd = False\<rparr> of
        Inl e \<Rightarrow> Inl e
      | Inr st \<Rightarrow>
         Inr \<lparr>invoices = sortByPaidAt (results st),
              truncated = (\<not> reachedEnd st),
              hasMore = walk_hasMore st,
              pageCount = walk_pageCount st,
              maxPages = clampMaxPages rawMaxPages\<rparr>)"

subsection \<open>\<open>SubscriptionPoolSyncService.syncPaidInvoices\<close>\<close>

record SubscriptionPoolSyncInput =
  in_customerId :: "string option"
  in_email :: "string option"
  in_userId :: "string option"
  in_month :: "string option"
  in_limit :: "int option"
  in_maxPages :: "int option"
  in_allCustomers :: bool

record ContributionInput =
  c_userId :: "string option"
  c_email :: "string option"
  c_customerId :: "string option"
  c_subscriptionId :: "string option"
  c_externalEventId :: string
  c_amountUsdCents :: int
  c_contributedAt :: string
  c_source :: string
  c_tierId :: "string option"
  c_metadata :: "(string \<times> string) list"

record ContributionReceipt =
  duplicate :: bool
  record_id :: string
  record_amountUsdCents :: int
  record_contributedAt :: string

record SyncedSubscriptionContribution =
  s_invoiceId :: string
  s_contributionId :: string
  s_duplicated :: bool
  s_amountUsdCents :: int
  s_paidAt :: string

record SubscriptionPoolSyncResult =
  r_scope :: string
  r_customerId :: "string option"
  r_email :: "string option"
  r_month :: "string option"
  fetchedInvoiceCount :: nat
  processedInvoiceCount :: nat
  syncedCount :: nat
  duplicateCount :: nat
  skippedCount :: nat
  records :: "SyncedSubscriptionContribution list"

text \<open>
  The two services the sync is constructed with: the subscription service (its two
  listing operations) and pool accounting, whose store is the state \<open>'p\<close>.
\<close>

record 'p SyncDeps =
  dep_listPaidInvoices ::
    "string option \<Rightarrow> string option \<Rightarrow> int option \<Rightarrow> js_error + PaidInvoice list"
  dep_listPaidInvoicesAcrossCustomers ::
    "int option \<Rightarrow> int option \<Rightarrow> js_error + PaidInvoiceAcrossCustomersResult"
  dep_recordContribution :: "'p \<Rightarrow> ContributionInput \<Rightarrow> js_error + (ContributionReceipt \<times> 'p)"
  dep_getTierIdForStripePrice :: "string option \<Rightarrow> string option"

datatype Fetched =
    InvoiceArray "PaidInvoice list"
  | AcrossCustomersObject PaidInvoiceAcrossCustomersResult

text \<open>
  The value bound to \<open>fetched\<close>: the array \<open>listPaidInvoices\<close> resolves to, or the
  object \<open>listPaidInvoicesAcrossCustomers\<close> resolves to. An object has no \<open>filter\<close>
  method and is not iterable.
\<close>

definition normalize :: "string option \<Rightarrow> string option" where
  "normalize v = (case v of None \<Rightarrow> None | Some s \<Rightarrow>
     if s = [] then None else if trim s = [] then None else Some (trim s))"

definition normalizeEmail :: "string option \<Rightarrow> string option" where
  "normalizeEmail v = map_option toLowerCase (normalize v)"

definition is_digit :: "char \<Rightarrow> bool" where
  "is_digit c = (48 \<le> (of_char c :: nat) \<and> (of_char c :: nat) \<le> 57)"

definition MONTH_REGEX_test :: "string \<Rightarrow> bool" where
  \<comment> \<open>\<open>/^\\d{4}-\\d{2}$/\<close>\<close>
  "MONTH_REGEX_test s =
     (length s = 7 \<and> list_all is_digit (take 4 s) \<and> s ! 4 = CHR ''-'' \<and> list_all is_digit (drop 5 s))"

definition fetched_filter :: "(PaidInvoice \<Rightarrow> bool) \<Rightarrow> Fetched \<Rightarrow> js_error + Fetched" where
  "fetched_filter p fetched =
     (case fetched of
        InvoiceArray xs \<Rightarrow> Inr (InvoiceArray (filter p xs))
      | AcrossCustomersObject _ \<Rightarrow> Inl (TypeError ''fetched.filter is not a function''))"

definition fetched_iterate :: "Fetched \<Rightarrow> js_error + PaidInvoice list" where
  "fetched_iterate invs =
     (case invs of
        InvoiceArray xs \<Rightarrow> Inr xs
      | AcrossCustomersObject _ \<Rightarrow> Inl (TypeError ''invoices is not iterable''))"

record 'p SyncLoop =
  l_pool :: 'p
  l_records :: "SyncedSubscriptionContribution list"
  l_syncedCount :: nat
  l_duplicateCount :: nat

fun sync_loop ::
  "'p SyncDeps \<Rightarrow> bool \<Rightarrow> string option \<Rightarrow> string option \<Rightarrow> string option
     \<Rightarrow> 'p SyncLoop \<Rightarrow> PaidInvoice list \<Rightarrow> js_error \<times> 'p + 'p SyncLoop" where
  \<comment> \<open>A throw of \<open>recordContribution\<close> leaves the pool as the earlier iterations made
      it.\<close>
  "sync_loop deps allCust userId idCustomerId idEmail st [] = Inr st"
| "sync_loop deps allCust userId idCustomerId idEmail st (invoice # rest) =
     (case dep_recordContribution deps (l_pool st)
             \<lparr>c_userId = userId,
              c_email = or_else (customerEmail invoice) idEmail,
              c_customerId = or_else (Some (customerId invoice)) idCustomerId,
              c_subscriptionId = subscriptionId invoice,
              c_externalEventId = ''stripe_invoice:'' @ invoiceId invoice,
              c_amountUsdCents = amountPaidCents invoice,
              c_contributedAt = paidAt invoice,
              c_source = ''subscription'',
              c_tierId = dep_getTierIdForStripePrice deps (priceId invoice),
              c_metadata =
                [(''stripe_invoice_id'', invoiceId invoice),
                 (''stripe_price_id'', (case or_else (priceId invoice) (Some []) of Some p \<Rightarrow> p | None \<Rightarrow> [])),
                 (''synced_by'', if allCust then ''sync_all_subscription_pool_contributions''
                                 else ''sync_subscription_pool_contributions'')]\<rparr> of
        Inl e \<Rightarrow> Inl (e, l_pool st)
      | Inr (receipt, pool2) \<Rightarrow>
         sync_loop deps allCust userId idCustomerId idEmail
           \<lparr>l_pool = pool2,
            l_records = l_records st @
              [\<lparr>s_invoiceId = invoiceId invoice, s_contributionId = record_id receipt,
                s_duplicated = duplicate receipt,
                s_amountUsdCents = record_amountUsdCents receipt,
                s_paidAt = record_contributedAt receipt\<rparr>],
            l_syncedCount = (if duplicate receipt then l_syncedCount st else l_syncedCount st + 1),
            l_duplicateCount = (if duplicate receipt then l_duplicateCount st + 1
                                else l_duplicateCount st)\<rparr>
           rest)"

definition first_customerId :: "PaidInvoice list \<Rightarrow> string option" where
  "first_customerId xs = (case xs of [] \<Rightarrow> None | x # _ \<Rightarrow> Some (customerId x))"

definition first_customerEmail :: "PaidInvoice list \<Rightarrow> string option" where
  "first_customerEmail xs = (case xs of [] \<Rightarrow> None | x # _ \<Rightarrow> customerEmail x)"

definition syncPaidInvoices ::
  "'p SyncDeps \<Rightarrow> SubscriptionPoolSyncInput \<Rightarrow> 'p \<Rightarrow> (js_error + SubscriptionPoolSyncResult) \<times> 'p" where
  "syncPaidInvoices deps input pool =
     (let idCustomerId = normalize (in_customerId input);
          idEmail = normalizeEmail (in_email input);
          userId = normalize (in_userId input);
          month = normalize (in_month input);
          allCust = in_allCustomers input
      in if \<not> allCust \<and> idCustomerId = None \<and> idEmail = None
         then (Inl (Error ''Provide at least one of customerId or email''), pool)
         else if month \<noteq> None \<and> \<not> MONTH_REGEX_test (the month)
         then (Inl (Error ''month must be in YYYY-MM format''), pool)
         else
          (case (if allCust
                 then map_sum id AcrossCustomersObject
                        (dep_listPaidInvoicesAcrossCustomers deps (in_limit input) (in_maxPages input))
                 else map_sum id InvoiceArray
                        (dep_listPaidInvoices deps idCustomerId idEmail (in_limit input))) of
             Inl e \<Rightarrow> (Inl e, pool)
           | Inr fetched \<Rightarrow>
              (case (case month of
                       Some m \<Rightarrow> fetched_filter (\<lambda>invoice. take 7 (paidAt invoice) = m) fetched
                     | None \<Rightarrow> Inr fetched) of
                 Inl e \<Rightarrow> (Inl e, pool)
               | Inr invs \<Rightarrow>
                  (case fetched_iterate invs of
                     Inl e \<Rightarrow> (Inl e, pool)
                   | Inr invoiceList \<Rightarrow>
                      (case sync_loop deps allCust userId idCustomerId idEmail
                              \<lparr>l_pool = pool, l_records = [], l_syncedCount = 0,
                               l_duplicateCount = 0\<rparr> invoiceList of
                         Inl (e, pool2) \<Rightarrow> (Inl e, pool2)
                       | Inr st \<Rightarrow>
                          (let fetchedList = (case fetched of InvoiceArray xs \<Rightarrow> xs
                                               | AcrossCustomersObject _ \<Rightarrow> [])
                           in (Inr \<lparr>r_scope = (if allCust then ''all_customers'' else ''customer''),
                                    r_customerId =
                                      or_else (or_else (first_customerId invoiceList)
                                                 (first_customerId fetchedList)) idCustomerId,
                                    r_email =
                                      or_else (or_else idEmail (first_customerEmail invoiceList))
                                        (first_customerEmail fetchedList),
                                    r_month = month,
                                    fetchedInvoiceCount = length fetchedList,
                                    processedInvoiceCount = length invoiceList,
                                    syncedCount = l_syncedCount st,
                                    duplicateCount = l_duplicateCount st,
                                    skippedCount = length fetchedList - length invoiceList,
                                    records = l_records st\<rparr>,
                               l_pool st)))))))"

subsection \<open>The fixture of the truncation test\<close>

definition in_truncated :: PaidInvoice where
  "in_truncated =
     \<lparr>invoiceId = ''in_truncated'', customerId = ''cus_a'',
      customerEmail = Some ''a@example.com'', subscriptionId = Some ''sub_a'',
      priceId = Some ''price_starter'', amountPaidCents = 100,
      paidAt = ''2026-03-01T00:00:00.000Z''\<rparr>"

definition truncated_page :: PaidInvoiceAcrossCustomersResult where
  "truncated_page =
     \<lparr>invoices = [in_truncated], truncated = True, hasMore = True, pageCount = 3, maxPages = 3\<rparr>"

definition stub_deps :: "unit SyncDeps" where
  "stub_deps =
     \<lparr>dep_listPaidInvoices = (\<lambda>c e l. Inr []),
      dep_listPaidInvoicesAcrossCustomers = (\<lambda>l m. Inr truncated_page),
      dep_recordContribution = (\<lambda>p c. Inr (\<lparr>duplicate = False, record_id = ''contrib_1'',
                                   record_amountUsdCents = c_amountUsdCents c,
                                   record_contributedAt = c_contributedAt c\<rparr>, p)),
      dep_getTierIdForStripePrice = (\<lambda>p. None)\<rparr>"

definition truncation_input :: SubscriptionPoolSyncInput where
  "truncation_input =
     \<lparr>in_customerId = None, in_email = None, in_userId = None, in_month = Some ''2026-03'',
      in_limit = None, in_maxPages = Some 3, in_allCustomers = True\<rparr>"

definition endless_stripe :: "int \<Rightarrow> string option \<Rightarrow> js_error + StripeListResponse" where
  \<comment> \<open>A gateway that always has one more page of one paid invoice.\<close>
  "endless_stripe limit after =
     Inr \<lparr>data = [\<lparr>inv_id = ''in_1'', inv_customer = Some ''cus_a'',
                    inv_customer_email = Some ''a@example.com'', inv_subscription = None,
                    inv_amount_paid = Some 100, inv_currency = Some ''usd'',
                    inv_paid_at = Some 1772323200, inv_line_price_id = None\<rparr>],
          has_more = Some True\<rparr>"

section \<open>Auth sessions: recovery tokens\<close>

datatype AuthSessionMethod = EmailMethod | OAuthMethod

datatype AuthSessionStatus = Pending | Verified | Expired | Locked

record AuthSessionRecord =
  auth_id :: string
  auth_method :: AuthSessionMethod
  auth_status :: AuthSessionStatus
  auth_createdAt :: int
  auth_expiresAt :: int
  verifiedAt :: "int option"
  beneficiaryName :: "string option"
  beneficiaryEmail :: "string option"
  authProvider :: "string option"
  authSubject :: "string option"
  emailCodeHash :: "string option"
  oauthStateToken :: "string option"
  verificationAttempts :: int
  auth_maxVerificationAttempts :: int

record RecoveryTokenRecord =
  rec_id :: string
  tokenHash :: string
  rec_sessionId :: string
  rec_beneficiaryEmail :: string
  rec_createdAt :: int
  rec_expiresAt :: int
  consumedAt :: "int option"

record IdentityLinkRecord =
  link_userId :: string
  link_sessionId :: string

record AuthState =
  sessions :: "AuthSessionRecord list"
  links :: "IdentityLinkRecord list"
  recoveries :: "RecoveryTokenRecord list"

text \<open>
  Instants are milliseconds since the epoch: the store keeps them as the ISO text of
  \<open>toISOString()\<close>, which \<open>new Date(text).getTime()\<close> reads back exactly.

  Every method of the service awaits \<open>store.readState()\<close>, works on the state it
  got, and awaits \<open>store.writeState(state)\<close> with the whole state; the store takes no
  lock. \<open>startRecovery\<close> and \<open>recoverWithToken\<close> below are the part of the methods
  between the two awaits: from the state that \<open>readState\<close> resolved to, the error
  thrown, or the value the method returns together with the state it hands to
  \<open>writeState\<close>. When the store is read and written is the matter of the steps of
  the last subsection.
\<close>

record AuthServiceDeps =
  sha256_hex :: "string \<Rightarrow> string"
  secret :: string
  sessionTtlSeconds :: int
  recoveryTtlSeconds :: int
  maxVerificationAttempts :: int

definition hash_of :: "AuthServiceDeps \<Rightarrow> string \<Rightarrow> string" where
  \<comment> \<open>\<open>createHash("sha256").update(secret).update(":").update(v).digest("hex")\<close>\<close>
  "hash_of deps v = sha256_hex deps (secret deps @ '':'' @ v)"

definition safeEquals :: "string \<Rightarrow> string \<Rightarrow> bool" where
  \<comment> \<open>Equal lengths and \<open>timingSafeEqual\<close> on the bytes: equality of the texts.\<close>
  "safeEquals a b = (length a = length b \<and> a = b)"

definition toIsoDate :: "int \<Rightarrow> int \<Rightarrow> int" where
  "toIsoDate now secondsToAdd = now + secondsToAdd * 1000"

definition isExpired :: "int \<Rightarrow> int \<Rightarrow> bool" where
  "isExpired now expiresAt = (expiresAt \<le> now)"

definition no_space_at :: "string \<Rightarrow> bool" where
  "no_space_at s = list_all (\<lambda>c. \<not> is_space c \<and> c \<noteq> CHR ''@'') s"

definition EMAIL_PATTERN_test :: "string \<Rightarrow> bool" where
  \<comment> \<open>\<open>/^[^\\s@]+@[^\\s@]+\\.[^\\s@]+$/\<close>: one \<open>@\<close>, a non-empty local part, and a
      dot inside the rest with a character on each side of it.\<close>
  "EMAIL_PATTERN_test s =
     (let local_part = takeWhile (\<lambda>c. c \<noteq> CHR ''@'') s;
          rest = drop (Suc (length local_part)) s
      in local_part \<noteq> [] \<and> length local_part < length s \<and>
         no_space_at local_part \<and> no_space_at rest \<and>
         List.member (butlast (tl rest)) (CHR ''.''))"

fun update_first :: "('a \<Rightarrow> bool) \<Rightarrow> ('a \<Rightarrow> 'a) \<Rightarrow> 'a list \<Rightarrow> 'a list" where
  \<comment> \<open>Assignment to a field of the object that \<open>Array.prototype.find\<close> returned.\<close>
  "update_first p f [] = []"
| "update_first p f (x # xs) = (if p x then f x # xs else x # update_first p f xs)"

definition requireSession :: "AuthState \<Rightarrow> string \<Rightarrow> js_error + AuthSessionRecord" where
  "requireSession st sessionId =
     (case find (\<lambda>item. auth_id item = sessionId) (sessions st) of
        None \<Rightarrow> Inl (Error (''Unknown auth session: '' @ sessionId))
      | Some s \<Rightarrow> Inr s)"

record StartRecoveryResult =
  recoveryToken :: string
  sr_expiresAt :: int
  sr_sessionId :: string

definition startRecovery ::
  "AuthServiceDeps \<Rightarrow> int \<Rightarrow> string \<Rightarrow> string \<Rightarrow> string \<Rightarrow> AuthState
     \<Rightarrow> js_error + (StartRecoveryResult \<times> AuthState)" where
  \<comment> \<open>\<open>st\<close> is the state read. \<open>tokenUuid\<close> and \<open>idUuid\<close> are the two values
      \<open>randomUUID()\<close> returns. The result is the value returned once \<open>writeState\<close>
      has completed, and the state handed to \<open>writeState\<close>.\<close>
  "startRecovery deps now tokenUuid idUuid inputEmail st =
     (case normalizeEmail (Some inputEmail) of
        None \<Rightarrow> Inl (Error ''beneficiary_email must be a valid email'')
      | Some e \<Rightarrow>
         if \<not> EMAIL_PATTERN_test e then Inl (Error ''beneficiary_email must be a valid email'')
         else
          (case sort_key (\<lambda>s. - auth_createdAt s)
                  (filter (\<lambda>item. auth_status item = Verified \<and>
                                   map_option toLowerCase (beneficiaryEmail item) = Some e)
                     (sessions st)) of
             [] \<Rightarrow> Inl (Error ''No verified auth session found for this email'')
           | source # _ \<Rightarrow>
              let token = ''recover_'' @ filter (\<lambda>c. c \<noteq> CHR ''-'') tokenUuid;
                  r = \<lparr>rec_id = ''recovery_'' @ idUuid,
                       tokenHash = hash_of deps token,
                       rec_sessionId = auth_id source,
                       rec_beneficiaryEmail = e,
                       rec_createdAt = now,
                       rec_expiresAt = toIsoDate now (recoveryTtlSeconds deps),
                       consumedAt = None\<rparr>
              in Inr (\<lparr>recoveryToken = token, sr_expiresAt = rec_expiresAt r,
                       sr_sessionId = auth_id source\<rparr>,
                      st\<lparr>recoveries := recoveries st @ [r]\<rparr>)))"

definition recoverWithToken ::
  "AuthServiceDeps \<Rightarrow> int \<Rightarrow> string \<Rightarrow> string \<Rightarrow> AuthState
     \<Rightarrow> js_error + (AuthSessionRecord \<times> AuthState)" where
  \<comment> \<open>\<open>st\<close> is the state read. \<open>sessionUuid\<close> is the value \<open>randomUUID()\<close> returns
      for the new session. The result is the recovered session, which \<open>stripSession\<close>
      publishes once \<open>writeState\<close> has completed, and the state handed to
      \<open>writeState\<close>.\<close>
  "recoverWithToken deps now sessionUuid inputToken st =
     (case normalize (Some inputToken) of
        None \<Rightarrow> Inl (Error ''recovery_token is required'')
      | Some token \<Rightarrow>
         (case find (\<lambda>item. safeEquals (tokenHash item) (hash_of deps token)) (recoveries st) of
            None \<Rightarrow> Inl (Error ''Invalid recovery_token'')
          | Some recovery \<Rightarrow>
             if consumedAt recovery \<noteq> None
             then Inl (Error ''recovery_token has already been used'')
             else if isExpired now (rec_expiresAt recovery)
             then Inl (Error ''recovery_token is expired'')
             else
              (case requireSession st (rec_sessionId recovery) of
                 Inl e \<Rightarrow> Inl e
               | Inr source \<Rightarrow>
                  if auth_status source \<noteq> Verified
                  then Inl (Error ''Recovery source session is not verified'')
                  else
                    let recovered =
                      \<lparr>auth_id = ''auth_'' @ sessionUuid,
                       auth_method = auth_method source,
                       auth_status = Verified,
                       auth_createdAt = now,
                       auth_expiresAt = toIsoDate now (sessionTtlSeconds deps),
                       verifiedAt = Some now,
                       beneficiaryName = beneficiaryName source,
                       beneficiaryEmail = beneficiaryEmail source,
                       authProvider = authProvider source,
                       authSubject = authSubject source,
                       emailCodeHash = None,
                       oauthStateToken = None,
                       verificationAttempts = 0,
                       auth_maxVerificationAttempts = maxVerificationAttempts deps\<rparr>
                    in Inr (recovered,
                            st\<lparr>recoveries :=
                                  update_first
                                    (\<lambda>item. safeEquals (tokenHash item) (hash_of deps token))
                                    (\<lambda>item. item\<lparr>consumedAt := Some now\<rparr>) (recoveries st),
                                sessions := sessions st @ [recovered]\<rparr>))))"

subsection \<open>Calls in flight\<close>

text \<open>
  A call is two steps on the store. \<open>ReadState c call\<close>: the state is read for the call
  numbered \<open>c\<close>, and the call runs up to its \<open>writeState\<close>, or throws. \<open>WriteState c\<close>:
  the state that call \<open>c\<close> holds replaces the content of the store, and the call returns.
  Between the two steps of a call the steps of other calls may take place: the handlers
  of the server run as tasks on one thread, which leave it at every \<open>await\<close>.
\<close>

datatype AuthCall =
    StartRecovery int string string string
  | RecoverWithToken int string string

datatype CallResult = Started StartRecoveryResult | Recovered AuthSessionRecord

datatype StoreStep = ReadState nat AuthCall | WriteState nat

record ServiceRun =
  store :: AuthState
  inflight :: "(nat \<times> CallResult \<times> AuthState) list"
  returned :: "(nat \<times> (js_error + CallResult)) list"

fun call_body :: "AuthServiceDeps \<Rightarrow> AuthCall \<Rightarrow> AuthState \<Rightarrow> js_error + (CallResult \<times> AuthState)" where
  "call_body deps (StartRecovery now tokenUuid idUuid inputEmail) st =
     (case startRecovery deps now tokenUuid idUuid inputEmail st of
        Inl e \<Rightarrow> Inl e
      | Inr (res, st') \<Rightarrow> Inr (Started res, st'))"
| "call_body deps (RecoverWithToken now sessionUuid inputToken) st =
     (case recoverWithToken deps now sessionUuid inputToken st of
        Inl e \<Rightarrow> Inl e
      | Inr (session, st') \<Rightarrow> Inr (Recovered session, st'))"

fun store_step :: "AuthServiceDeps \<Rightarrow> StoreStep \<Rightarrow> ServiceRun \<Rightarrow> ServiceRun" where
  "store_step deps (ReadState c call) r =
     (case call_body deps call (store r) of
        Inl e \<Rightarrow> r\<lparr>returned := returned r @ [(c, Inl e)]\<rparr>
      | Inr (res, st') \<Rightarrow> r\<lparr>inflight := inflight r @ [(c, res, st')]\<rparr>)"
| "store_step deps (WriteState c) r =
     (case find (\<lambda>p. fst p = c) (inflight r) of
        None \<Rightarrow> r
      | Some (c', res, st') \<Rightarrow>
         r\<lparr>store := st', inflight := filter (\<lambda>p. fst p \<noteq> c) (inflight r),
           returned := returned r @ [(c, Inr res)]\<rparr>)"

definition run_calls :: "AuthServiceDeps \<Rightarrow> StoreStep list \<Rightarrow> ServiceRun \<Rightarrow> ServiceRun" where
  "run_calls deps steps r = fold (store_step deps) steps r"

definition idle :: "AuthState \<Rightarrow> ServiceRun" where
  \<comment> \<open>The service with no call in flight.\<close>
  "idle st = \<lparr>store = st, inflight = [], returned = []\<rparr>"

definition token_consumed :: "AuthServiceDeps \<Rightarrow> string \<Rightarrow> AuthState \<Rightarrow> bool" where
  "token_consumed deps token st =
     (case find (\<lambda>item. tokenHash item = hash_of deps token) (recoveries st) of
        None \<Rightarrow> False
      | Some r \<Rightarrow> consumedAt r \<noteq> None)"

subsection \<open>A store with one verified session\<close>

definition demo_deps :: AuthServiceDeps where
  \<comment> \<open>The digest is replaced by the identity; nothing below depends on the digest.\<close>
  "demo_deps =
     \<lparr>sha256_hex = (\<lambda>s. s), secret = ''test-secret'', sessionTtlSeconds = 900,
      recoveryTtlSeconds = 86400, maxVerificationAttempts = 5\<rparr>"

definition alice_session :: AuthSessionRecord where
  "alice_session =
     \<lparr>auth_id = ''auth_1'', auth_method = EmailMethod, auth_status = Verified,
      auth_createdAt = 1000, auth_expiresAt = 901000, verifiedAt = Some 2000,
      beneficiaryName = Some ''Alice'', beneficiaryEmail = Some ''alice@example.com'',
      authProvider = None, authSubject = None, emailCodeHash = Some ''h'',
      oauthStateToken = None, verificationAttempts = 0, auth_maxVerificationAttempts = 5\<rparr>"

definition alice_recovery :: RecoveryTokenRecord where
  "alice_recovery =
     \<lparr>rec_id = ''recovery_r1'', tokenHash = ''test-secret:recover_abc'',
      rec_sessionId = ''auth_1'', rec_beneficiaryEmail = ''alice@example.com'',
      rec_createdAt = 3000, rec_expiresAt = 86403000, consumedAt = None\<rparr>"

definition alice_state :: AuthState where
  "alice_state = \<lparr>sessions = [alice_session], links = [], recoveries = []\<rparr>"

definition alice_recovered :: AuthSessionRecord where
  "alice_recovered =
     \<lparr>auth_id = ''auth_2'', auth_method = EmailMethod, auth_status = Verified,
      auth_createdAt = 5000, auth_expiresAt = 905000, verifiedAt = Some 5000,
      beneficiaryName = Some ''Alice'', beneficiaryEmail = Some ''alice@example.com'',
      authProvider = None, authSubject = None, emailCodeHash = None,
      oauthStateToken = None, verificationAttempts = 0, auth_maxVerificationAttempts = 5\<rparr>"


definition alice_recovered_again :: AuthSessionRecord where
  "alice_recovered_again =
     \<lparr>auth_id = ''auth_3'', auth_method = EmailMethod, auth_status = Verified,
      auth_createdAt = 6000, auth_expiresAt = 906000, verifiedAt = Some 6000,
      beneficiaryName = Some ''Alice'', beneficiaryEmail = Some ''alice@example.com'',
      authProvider = None, authSubject = None, emailCodeHash = None,
      oauthStateToken = None, verificationAttempts = 0, auth_maxVerificationAttempts = 5\<rparr>"
section \<open>Retirement service: \<open>executeRetirement\<close>\<close>


text \<open>
  \<open>quantity_text\<close> is the text of \<open>params.quantity\<close> when that number is given and
  truthy, so that \<open>params.quantity || 1\<close> prints as \<open>quantity_text\<close> or as \<open>1\<close>.
\<close>

datatype RetirementStatus = Success | MarketplaceFallback

record RetirementResult =
  rr_status :: RetirementStatus
  txHash :: "string option"
  creditsRetired :: "string option"
  cost :: "string option"
  blockHeight :: "int option"
  certificateId :: "string option"
  rr_marketplaceUrl :: "string option"
  message :: "string option"
  remainingBalanceCents :: "int option"
  rr_jurisdiction :: "string option"
  rr_reason :: "string option"
  rr_beneficiaryName :: "string option"






























subsection \<open>Reading the log of downstream calls\<close>





subsection \<open>The scenario of the broadcast failure test\<close>








section \<open>Batch retirement: proportional attribution\<close>

definition MICRO_FACTOR :: int where
  "MICRO_FACTOR = 1000000"

definition MAX_SAFE_INTEGER :: int where
  "MAX_SAFE_INTEGER = 9007199254740991"

definition split_dot :: "string \<Rightarrow> string \<times> string" where
  \<comment> \<open>The first two parts of \<open>quantity.split(".")\<close>, the second \<open>""\<close> when absent.\<close>
  "split_dot s =
     (takeWhile (\<lambda>c. c \<noteq> CHR ''.'') s,
      (case dropWhile (\<lambda>c. c \<noteq> CHR ''.'') s of
         [] \<Rightarrow> []
       | _ # rest \<Rightarrow> takeWhile (\<lambda>c. c \<noteq> CHR ''.'') rest))"

definition parseQuantityToMicro :: "string \<Rightarrow> js_error + int" where
  "parseQuantityToMicro quantityText =
     (let wholePart = fst (split_dot quantityText);
          fracPart = snd (split_dot quantityText)
      in case BigInt (if wholePart = [] then ''0'' else wholePart) of
           Inl e \<Rightarrow> Inl e
         | Inr whole \<Rightarrow>
            let fracPadded = take 6 (padEnd 6 (CHR ''0'') fracPart)
            in (case BigInt (if fracPadded = [] then ''0'' else fracPadded) of
                  Inl e \<Rightarrow> Inl e
                | Inr fracMicro \<Rightarrow> Inr (whole * MICRO_FACTOR + fracMicro)))"

definition microToQuantity :: "int \<Rightarrow> string" where
  "microToQuantity micro =
     bigint_toString (micro sdiv MICRO_FACTOR) @ ''.'' @
     padStart 6 (CHR ''0'') (bigint_toString (micro smod MICRO_FACTOR))"

definition assertSafeInteger :: "int \<Rightarrow> string \<Rightarrow> js_error + int" where
  "assertSafeInteger v label =
     (if v > MAX_SAFE_INTEGER then Inl (Error (label @ '' exceeds JS safe integer range''))
      else Inr v)"

record Entry =
  e_index :: nat
  e_weight :: int
  base :: int
  remainder :: int

definition compare_entries :: "Entry \<Rightarrow> Entry \<Rightarrow> int" where
  "compare_entries a b =
     (if remainder a > remainder b then - 1
      else if remainder a < remainder b then 1
      else if e_weight a > e_weight b then - 1
      else if e_weight a < e_weight b then 1
      else int (e_index a) - int (e_index b))"

fun insert_entry :: "Entry \<Rightarrow> Entry list \<Rightarrow> Entry list" where
  "insert_entry x [] = [x]"
| "insert_entry x (y # ys) =
     (if compare_entries x y \<le> 0 then x # y # ys else y # insert_entry x ys)"

definition sort_entries :: "Entry list \<Rightarrow> Entry list" where
  \<comment> \<open>\<open>entries.sort(compare)\<close>: a stable sort; the comparator orders entries of
      different index strictly, so every sorting algorithm gives this list.\<close>
  "sort_entries es = foldr insert_entry es []"

fun distribute :: "int \<Rightarrow> Entry list \<Rightarrow> Entry list" where
  \<comment> \<open>The loop \<open>for (i = 0; i < entries.length && remainderUnits > 0; i += 1)\<close>.\<close>
  "distribute r [] = []"
| "distribute r (e # es) =
     (if r > 0 then e\<lparr>base := base e + 1\<rparr> # distribute (r - 1) es else e # es)"

definition fill_result :: "nat \<Rightarrow> Entry list \<Rightarrow> int list" where
  \<comment> \<open>\<open>result[item.index] = item.base\<close> over the entries, on an array of zeros. Every
      index is below the length, so no assignment extends the array.\<close>
  "fill_result n es = fold (\<lambda>item res. res[e_index item := base item]) es (replicate n 0)"

definition allocateProportionally :: "int \<Rightarrow> int list \<Rightarrow> js_error + int list" where
  "allocateProportionally total' weights =
     (if total' \<le> 0 \<or> weights = [] then Inr (map (\<lambda>_. 0) weights)
      else
        let sumWeights = sum_list weights
        in if sumWeights \<le> 0 then Inr (map (\<lambda>_. 0) weights)
           else
             let entries =
                   map (\<lambda>(weight, i).
                          \<lparr>e_index = i, e_weight = weight,
                           base = (total' * weight) sdiv sumWeights,
                           remainder = (total' * weight) smod sumWeights\<rparr>)
                     (zip weights [0..<length weights]);
                 allocated = sum_list (map base entries);
                 remainderUnits = total' - allocated;
                 bumped = distribute remainderUnits (sort_entries entries);
                 result = fill_result (length weights) bumped
             in if sum_list result \<noteq> total' then Inl (Error ''Proportional allocation mismatch'')
                else Inr result)"

record MonthlyContributorAggregate =
  m_userId :: string
  m_email :: "string option"
  m_customerId :: "string option"
  totalUsdCents :: int

record BuildAttributionsInput =
  contributors :: "MonthlyContributorAggregate list"
  totalContributionUsdCents :: int
  appliedBudgetUsdCents :: int
  b_totalCostMicro :: int
  retiredQuantity :: string
  b_paymentDenom :: string

text \<open>
  The amounts in cents are whole numbers, so that \<open>BigInt(number)\<close> does not throw on
  them.
\<close>

record ContributorAttribution =
  userId :: string
  ca_email :: "string option"
  ca_customerId :: "string option"
  sharePpm :: int
  contributionUsdCents :: int
  attributedBudgetUsdCents :: int
  attributedCostMicro :: string
  attributedQuantity :: string
  ca_paymentDenom :: string

fun attribute_each ::
  "string \<Rightarrow> int \<Rightarrow> (MonthlyContributorAggregate \<times> int \<times> int \<times> int) list
     \<Rightarrow> js_error + ContributorAttribution list" where
  \<comment> \<open>The final \<open>map\<close>, over each contributor with its budget, cost and quantity
      allocation; the weight is the contributor's \<open>totalUsdCents\<close>.\<close>
  "attribute_each denom sumWeights [] = Inr []"
| "attribute_each denom sumWeights ((contributor, budget, costAlloc, quantityAlloc) # rest) =
     (case assertSafeInteger ((totalUsdCents contributor * 1000000) sdiv sumWeights) ''sharePpm'' of
        Inl e \<Rightarrow> Inl e
      | Inr ppm \<Rightarrow>
         (case assertSafeInteger budget ''attributedBudgetUsdCents'' of
            Inl e \<Rightarrow> Inl e
          | Inr safeBudget \<Rightarrow>
             (case attribute_each denom sumWeights rest of
                Inl e \<Rightarrow> Inl e
              | Inr attrs \<Rightarrow>
                 Inr (\<lparr>userId = m_userId contributor,
                       ca_email = m_email contributor,
                       ca_customerId = m_customerId contributor,
                       sharePpm = ppm,
                       contributionUsdCents = totalUsdCents contributor,
                       attributedBudgetUsdCents = safeBudget,
                       attributedCostMicro = bigint_toString costAlloc,
                       attributedQuantity = microToQuantity quantityAlloc,
                       ca_paymentDenom = denom\<rparr> # attrs))))"

definition buildContributorAttributions ::
  "BuildAttributionsInput \<Rightarrow> js_error + ContributorAttribution list" where
  "buildContributorAttributions input =
     (if contributors input = [] then Inr []
      else if totalContributionUsdCents input \<le> 0 then Inr []
      else
        let weights = map totalUsdCents (contributors input);
            sumWeights = sum_list weights
        in if sumWeights \<le> 0 then Inr []
           else
            (case parseQuantityToMicro (retiredQuantity input) of
               Inl e \<Rightarrow> Inl e
             | Inr quantityMicroTotal \<Rightarrow>
                (case allocateProportionally (appliedBudgetUsdCents input) weights of
                   Inl e \<Rightarrow> Inl e
                 | Inr budgetAllocations \<Rightarrow>
                    (case allocateProportionally (b_totalCostMicro input) weights of
                       Inl e \<Rightarrow> Inl e
                     | Inr costAllocations \<Rightarrow>
                        (case allocateProportionally quantityMicroTotal weights of
                           Inl e \<Rightarrow> Inl e
                         | Inr quantityAllocations \<Rightarrow>
                            attribute_each (b_paymentDenom input) sumWeights
                              (zip (contributors input)
                                 (zip budgetAllocations
                                    (zip costAllocations quantityAllocations))))))))"

fun results_sum :: "(js_error + int) list \<Rightarrow> int option" where
  \<comment> \<open>The sum of a list of parsed numbers, when every one of them parsed.\<close>
  "results_sum [] = Some 0"
| "results_sum (Inl e # rest) = None"
| "results_sum (Inr v # rest) = map_option (\<lambda>s. v + s) (results_sum rest)"

definition decimal_digits :: "string \<Rightarrow> bool" where
  \<comment> \<open>The texts made of decimal digits only.\<close>
  "decimal_digits s = (\<forall>c \<in> set s. c \<in> set ''0123456789'')"

subsection \<open>The contributors of the rounding test\<close>

definition three_cents :: "MonthlyContributorAggregate list" where
  "three_cents =
     [\<lparr>m_userId = ''u1'', m_email = None, m_customerId = None, totalUsdCents = 1\<rparr>,
      \<lparr>m_userId = ''u2'', m_email = None, m_customerId = None, totalUsdCents = 1\<rparr>,
      \<lparr>m_userId = ''u3'', m_email = None, m_customerId = None, totalUsdCents = 1\<rparr>]"

definition rounding_input :: BuildAttributionsInput where
  "rounding_input =
     \<lparr>contributors = three_cents, totalContributionUsdCents = 3, appliedBudgetUsdCents = 2,
      b_totalCostMicro = 2, retiredQuantity = ''0.000002'', b_paymentDenom = ''uusdc''\<rparr>"

section \<open>Identity attribution in the retirement reason\<close>

text \<open>
  \<open>normalize\<close> and \<open>normalizeEmail\<close> of the identity helpers are, line for line, the
  functions of the same names above. The result of \<open>JSON.parse\<close> is a value of any
  shape, kept as a \<open>json_value\<close>; a number is kept by its value, and an object by
  its own properties, one entry for each key.

  \<open>JSON.stringify\<close>, \<open>JSON.parse\<close> and the base64url coding of \<open>Buffer\<close> belong
  to the platform. The functions below take them as two parameters: \<open>encode\<close> is
  \<open>Buffer.from(JSON.stringify(payload), "utf8").toString("base64url")\<close>, and
  \<open>decode\<close> is \<open>JSON.parse(Buffer.from(encoded, "base64url").toString("utf8"))\<close>,
  with \<open>Inl\<close> for the SyntaxError of \<open>JSON.parse\<close>.
\<close>

datatype json_value =
    JNull
  | JBool bool
  | JNumber real
  | JString string
  | JArray "json_value list"
  | JObject "(string \<times> json_value) list"

datatype AuthMethod = AuthNone | AuthManual | AuthEmail | AuthOauth

fun method_text :: "AuthMethod \<Rightarrow> string" where
  "method_text AuthNone = ''none''"
| "method_text AuthManual = ''manual''"
| "method_text AuthEmail = ''email''"
| "method_text AuthOauth = ''oauth''"

record IdentityAttribution =
  authMethod :: AuthMethod
  ia_beneficiaryName :: "string option"
  ia_beneficiaryEmail :: "string option"
  ia_authProvider :: "string option"
  ia_authSubject :: "string option"

record EncodedIdentityV1 =
  p_v :: nat
  p_method :: string
  p_name :: "string option"
  p_email :: "string option"
  p_provider :: "string option"
  p_subject :: "string option"

record ParsedAttributedReason =
  reasonText :: string
  identity :: "EncodedIdentityV1 option"

subsection \<open>The identity tag\<close>

definition is_base64url :: "char \<Rightarrow> bool" where
  \<comment> \<open>The class \<open>[A-Za-z0-9\-_]\<close>.\<close>
  "is_base64url c =
     (let n = (of_char c :: nat)
      in (65 \<le> n \<and> n \<le> 90) \<or> (97 \<le> n \<and> n \<le> 122) \<or> (48 \<le> n \<and> n \<le> 57) \<or>
         c = CHR ''-'' \<or> c = CHR ''_'')"

definition tag_at :: "string \<Rightarrow> string option" where
  \<comment> \<open>\<open>IDENTITY_TAG_PATTERN\<close> tried at the start of the text: white space, the text
      \<open>[identity:\<close>, the group of one or more characters of the class, \<open>]\<close>, white
      space, and the end of the text. The result is the group, when the whole text
      matches. \<open>[\<close> is not white space and \<open>]\<close> is not in the class, so the greedy split
      is the only one.\<close>
  "tag_at s =
     (let afterSpace = dropWhile is_space s
      in if take 10 afterSpace \<noteq> ''[identity:'' then None
         else
           let body = drop 10 afterSpace;
               grp = takeWhile is_base64url body
           in if grp = [] then None
              else (case dropWhile is_base64url body of
                      [] \<Rightarrow> None
                    | c # trailing \<Rightarrow>
                       if c = CHR '']'' \<and> list_all is_space trailing then Some grp else None))"

fun IDENTITY_TAG_PATTERN_exec :: "string \<Rightarrow> (string \<times> string) option" where
  \<comment> \<open>The leftmost match of the pattern: the text before the match, and the group.\<close>
  "IDENTITY_TAG_PATTERN_exec [] = map_option (Pair []) (tag_at [])"
| "IDENTITY_TAG_PATTERN_exec (c # cs) =
     (case tag_at (c # cs) of
        Some grp \<Rightarrow> Some ([], grp)
      | None \<Rightarrow> map_option (\<lambda>(before, grp). (c # before, grp)) (IDENTITY_TAG_PATTERN_exec cs))"

definition replace_tag :: "string \<Rightarrow> string" where
  \<comment> \<open>\<open>rawReason.replace(IDENTITY_TAG_PATTERN, "")\<close>: a match runs to the end of the text.\<close>
  "replace_tag s = (case IDENTITY_TAG_PATTERN_exec s of None \<Rightarrow> s | Some (before, grp) \<Rightarrow> before)"

subsection \<open>Appending\<close>

definition if_truthy :: "string option \<Rightarrow> string option" where
  \<comment> \<open>\<open>if (value) payload.field = value\<close>\<close>
  "if_truthy v = (if truthy v then v else None)"

definition payload_of :: "IdentityAttribution \<Rightarrow> EncodedIdentityV1" where
  "payload_of ident =
     \<lparr>p_v = 1, p_method = method_text (authMethod ident),
      p_name = if_truthy (ia_beneficiaryName ident),
      p_email = if_truthy (ia_beneficiaryEmail ident),
      p_provider = if_truthy (ia_authProvider ident),
      p_subject = if_truthy (ia_authSubject ident)\<rparr>"

definition appendIdentityToReason ::
  "(EncodedIdentityV1 \<Rightarrow> string) \<Rightarrow> string \<Rightarrow> IdentityAttribution \<Rightarrow> string" where
  "appendIdentityToReason encode baseReason ident =
     (if authMethod ident = AuthNone then baseReason
      else baseReason @ '' [identity:'' @ encode (payload_of ident) @ '']'')"

subsection \<open>Parsing\<close>

definition property :: "json_value \<Rightarrow> string \<Rightarrow> js_error + json_value option" where
  \<comment> \<open>\<open>parsed.key\<close> for the keys read below, none of which a string, a number, a
      boolean or an array has. \<open>None\<close> is \<open>undefined\<close>.\<close>
  "property parsed key =
     (case parsed of
        JNull \<Rightarrow> Inl (TypeError (''Cannot read properties of null (reading '' @ key @ '')''))
      | JObject entries \<Rightarrow> Inr (map_of entries key)
      | _ \<Rightarrow> Inr None)"

definition falsy :: "json_value option \<Rightarrow> bool" where
  "falsy v = (v = None \<or> v = Some JNull \<or> v = Some (JBool False) \<or> v = Some (JNumber 0) \<or>
              v = Some (JString []))"

definition normalize_value :: "json_value option \<Rightarrow> js_error + string option" where
  \<comment> \<open>\<open>normalize\<close> on a value of any type: a truthy value that is not a string has no
      \<open>trim\<close>.\<close>
  "normalize_value v =
     (if falsy v then Inr None
      else case v of
             Some (JString s) \<Rightarrow> Inr (normalize (Some s))
           | _ \<Rightarrow> Inl (TypeError ''value.trim is not a function''))"

definition normalizeEmail_value :: "json_value option \<Rightarrow> js_error + string option" where
  "normalizeEmail_value v =
     (case normalize_value v of
        Inl e \<Rightarrow> Inl e
      | Inr normalized \<Rightarrow> Inr (map_option toLowerCase normalized))"

definition DEFAULT_REASON :: string where
  "DEFAULT_REASON = ''Ecological regeneration''"

definition identity_fields ::
  "json_value \<Rightarrow> string \<Rightarrow> js_error + EncodedIdentityV1" where
  \<comment> \<open>The object literal \<open>{v: 1, method: parsed.method, name: normalize(parsed.name), ...}\<close>;
      \<open>parsed\<close> is not \<open>null\<close> here.\<close>
  "identity_fields parsed parsedMethod =
     (case normalize_value (projr (property parsed ''name'')) of
        Inl e \<Rightarrow> Inl e
      | Inr parsedName \<Rightarrow>
         (case normalizeEmail_value (projr (property parsed ''email'')) of
            Inl e \<Rightarrow> Inl e
          | Inr parsedEmail \<Rightarrow>
             (case normalize_value (projr (property parsed ''provider'')) of
                Inl e \<Rightarrow> Inl e
              | Inr parsedProvider \<Rightarrow>
                 (case normalize_value (projr (property parsed ''subject'')) of
                    Inl e \<Rightarrow> Inl e
                  | Inr parsedSubject \<Rightarrow>
                     Inr \<lparr>p_v = 1, p_method = parsedMethod, p_name = parsedName,
                          p_email = parsedEmail, p_provider = parsedProvider,
                          p_subject = parsedSubject\<rparr>))))"

definition decode_identity ::
  "(string \<Rightarrow> js_error + json_value) \<Rightarrow> string \<Rightarrow> string \<Rightarrow> js_error + ParsedAttributedReason" where
  \<comment> \<open>The body of the \<open>try\<close>.\<close>
  "decode_identity decode rawReason encoded =
     (case decode encoded of
        Inl e \<Rightarrow> Inl e
      | Inr parsed \<Rightarrow>
         (case property parsed ''v'' of
            Inl e \<Rightarrow> Inl e
          | Inr version \<Rightarrow>
             if version \<noteq> Some (JNumber 1) then Inr \<lparr>reasonText = rawReason, identity = None\<rparr>
             else
               (case projr (property parsed ''method'') of
                  Some (JString parsedMethod) \<Rightarrow>
                    if parsedMethod \<noteq> ''manual'' \<and> parsedMethod \<noteq> ''email'' \<and>
                       parsedMethod \<noteq> ''oauth''
                    then Inr \<lparr>reasonText = rawReason, identity = None\<rparr>
                    else
                      let replaced = replace_tag rawReason
                      in (case identity_fields parsed parsedMethod of
                            Inl e \<Rightarrow> Inl e
                          | Inr parsedIdentity \<Rightarrow>
                             Inr \<lparr>reasonText = (if replaced = [] then DEFAULT_REASON else replaced),
                                  identity = Some parsedIdentity\<rparr>)
                | _ \<Rightarrow> Inr \<lparr>reasonText = rawReason, identity = None\<rparr>)))"

definition parseAttributedReason ::
  "(string \<Rightarrow> js_error + json_value) \<Rightarrow> string option \<Rightarrow> ParsedAttributedReason" where
  "parseAttributedReason decode reason =
     (let rawReason = (case normalize reason of Some r \<Rightarrow> r | None \<Rightarrow> DEFAULT_REASON)
      in case IDENTITY_TAG_PATTERN_exec rawReason of
           None \<Rightarrow> \<lparr>reasonText = rawReason, identity = None\<rparr>
         | Some (before, encoded) \<Rightarrow>
            if encoded = [] then \<lparr>reasonText = rawReason, identity = None\<rparr>
            else (case decode_identity decode rawReason encoded of
                    Inl e \<Rightarrow> \<lparr>reasonText = rawReason, identity = None\<rparr>
                  | Inr parsedReason \<Rightarrow> parsedReason))"

subsection \<open>What the platform gives back for a payload\<close>

definition opt_entry :: "string \<Rightarrow> string option \<Rightarrow> (string \<times> json_value) list" where
  "opt_entry key v = (case v of None \<Rightarrow> [] | Some s \<Rightarrow> [(key, JString s)])"

definition payload_json :: "EncodedIdentityV1 \<Rightarrow> json_value" where
  \<comment> \<open>The object that \<open>JSON.parse\<close> gives for the text that \<open>JSON.stringify\<close> gives for
      a payload.\<close>
  "payload_json p =
     JObject ([(''v'', JNumber (real (p_v p))), (''method'', JString (p_method p))] @
              opt_entry ''name'' (p_name p) @ opt_entry ''email'' (p_email p) @
              opt_entry ''provider'' (p_provider p) @ opt_entry ''subject'' (p_subject p))"

subsection \<open>The round trip of the helpers' test\<close>

definition alice_identity :: IdentityAttribution where
  "alice_identity =
     \<lparr>authMethod = AuthOauth, ia_beneficiaryName = Some ''Alice'',
      ia_beneficiaryEmail = Some ''alice@example.com'', ia_authProvider = Some ''google'',
      ia_authSubject = Some ''sub-123''\<rparr>"

definition alice_encoded :: string where
  \<comment> \<open>The base64url text of
      \<open>{"v":1,"method":"oauth","name":"Alice","email":"alice@example.com","provider":"google","subject":"sub-123"}\<close>.\<close>
  "alice_encoded =
     ''eyJ2IjoxLCJtZXRob2QiOiJvYXV0aCIsIm5hbWUiOiJBbGljZSIsImVtYWlsIjoiYWxpY2VAZXhhbXBsZS5jb20iLCJwcm92aWRlciI6Imdvb2dsZSIsInN1YmplY3QiOiJzdWItMTIzIn0''"

definition alice_encode :: "EncodedIdentityV1 \<Rightarrow> string" where
  \<comment> \<open>The coding of the platform at the payload of the test, the only payload coded
      below.\<close>
  "alice_encode p = (if p = payload_of alice_identity then alice_encoded else [])"

definition alice_decode :: "string \<Rightarrow> js_error + json_value" where
  \<comment> \<open>The decoding of the platform at that text.\<close>
  "alice_decode s =
     (if s = alice_encoded
      then Inr (JObject [(''v'', JNumber 1), (''method'', JString ''oauth''),
                         (''name'', JString ''Alice''), (''email'', JString ''alice@example.com''),
                         (''provider'', JString ''google''), (''subject'', JString ''sub-123'')])
      else Inl (SyntaxError ''Unexpected end of JSON input''))"

section \<open>Order selector: the budget bound\<close>

lemma sdiv_nonneg_eq_div: "0 \<le> a \<Longrightarrow> 0 \<le> b \<Longrightarrow> a sdiv b = (a::int) div b"
  by (auto simp: signed_divide_int_def sgn_if)

lemma smod_nonneg_eq_mod: "0 \<le> a \<Longrightarrow> 0 \<le> b \<Longrightarrow> a smod b = (a::int) mod b"
  by (auto simp: signed_modulo_int_def sgn_if)

lemma ceil_div_pos:
  fixes n b :: int
  assumes "0 < b"
  shows "(n + b - 1) div b = ceiling (of_int n / (of_int b :: real))"
proof -
  define z where "z = (n + b - 1) div b"
  have e: "n + b - 1 = b * z + (n + b - 1) mod b"
    by (simp add: z_def)
  have r: "0 \<le> (n + b - 1) mod b" "(n + b - 1) mod b < b"
    using assms by simp_all
  from e r have up: "n \<le> z * b" and low: "(z - 1) * b < n"
    by (simp_all add: algebra_simps)
  from low have "(of_int ((z - 1) * b) :: real) < of_int n"
    by (simp only: of_int_less_iff)
  then have "(of_int z - 1) * of_int b < (of_int n :: real)"
    by simp
  then have l: "of_int z - 1 < of_int n / (of_int b :: real)"
    using assms by (simp add: pos_less_divide_eq)
  from up have "(of_int n :: real) \<le> of_int (z * b)"
    by (simp only: of_int_le_iff)
  then have "(of_int n :: real) \<le> of_int z * of_int b"
    by simp
  then have u: "of_int n / (of_int b :: real) \<le> of_int z"
    using assms by (simp add: pos_divide_le_eq)
  from ceiling_unique [OF l u] show ?thesis
    by (simp add: z_def)
qed

lemma ceil_div_million:
  assumes "0 \<le> n"
  shows "(n + MICRO_CREDITS - 1) sdiv MICRO_CREDITS = ceiling ((of_int n :: real) / 1000000)"
proof -
  have "(n + MICRO_CREDITS - 1) sdiv MICRO_CREDITS = (n + 1000000 - 1) div 1000000"
    using assms by (simp add: MICRO_CREDITS_def sdiv_nonneg_eq_div)
  also have "\<dots> = ceiling (of_int n / (of_int 1000000 :: real))"
    by (rule ceil_div_pos) simp
  finally show ?thesis by simp
qed

lemma within_budget_append:
  "within_budget r (xs @ ys) =
     (within_budget r xs \<and> within_budget (r - sum_list (map costMicro xs)) ys)"
proof (induction xs arbitrary: r)
  case Nil
  show ?case by simp
next
  case (Cons x xs)
  have "r - costMicro x - sum_list (map costMicro xs) = r - (costMicro x + sum_list (map costMicro xs))"
    by simp
  with Cons.IH [of "r - costMicro x"] show ?case by simp
qed

lemma within_budget_sum:
  "within_budget r xs \<Longrightarrow> 0 \<le> r \<Longrightarrow> sum_list (map costMicro xs) \<le> r"
proof (induction xs arbitrary: r)
  case Nil
  then show ?case by simp
next
  case (Cons x xs)
  then have "within_budget (r - costMicro x) xs" and "0 \<le> r - costMicro x"
    by simp_all
  from Cons.IH [OF this] show ?case by simp
qed

lemma within_budget_nth:
  "within_budget r xs \<Longrightarrow> k < length xs \<Longrightarrow>
     0 < costMicro (xs ! k) \<and> costMicro (xs ! k) \<le> r - sum_list (map costMicro (take k xs))"
proof (induction xs arbitrary: r k)
  case Nil
  then show ?case by simp
next
  case (Cons x xs)
  show ?case
  proof (cases k)
    case 0
    with Cons.prems show ?thesis by simp
  next
    case (Suc j)
    with Cons.prems have "within_budget (r - costMicro x) xs" and "j < length xs"
      by simp_all
    from Cons.IH [OF this] Suc show ?thesis
      by (simp add: algebra_simps)
  qed
qed

lemma select_step_cases:
  assumes "select_step st order = Inr st2"
  shows "st2 = st \<or>
    (\<exists>price takeMicro cost. BigInt (ask_amount order) = Inr price \<and> 0 < price \<and> 0 < takeMicro \<and>
       cost = (price * takeMicro + MICRO_CREDITS - 1) sdiv MICRO_CREDITS \<and>
       0 < cost \<and> cost \<le> remainingBudget st \<and>
       st2 = \<lparr>remainingBudget = remainingBudget st - cost,
              totalQuantityMicro = totalQuantityMicro st + takeMicro,
              loop_totalCostMicro = loop_totalCostMicro st + cost,
              selected = selected st @
                [\<lparr>sellOrderId = order_id order, batchDenom = batch_denom order,
                  sel_quantity = toMicroQuantityString takeMicro, askAmount = ask_amount order,
                  askDenom = ask_denom order, costMicro = cost\<rparr>]\<rparr>)"
  using assms
  by (auto simp: select_step_def Let_def split: option.splits sum.splits if_splits)

lemma select_step_inv:
  assumes "select_step st order = Inr st2" and "loop_inv B st"
  shows "loop_inv B st2"
  using select_step_cases [OF assms(1)] assms(2)
  by (auto simp: loop_inv_def within_budget_append)

lemma select_step_charged:
  assumes "select_step st order = Inr st2" and "list_all charged (selected st)"
  shows "list_all charged (selected st2)"
proof -
  from select_step_cases [OF assms(1)] show ?thesis
  proof
    assume "st2 = st"
    with assms(2) show ?thesis by simp
  next
    assume "\<exists>price takeMicro cost. BigInt (ask_amount order) = Inr price \<and> 0 < price \<and> 0 < takeMicro \<and>
       cost = (price * takeMicro + MICRO_CREDITS - 1) sdiv MICRO_CREDITS \<and>
       0 < cost \<and> cost \<le> remainingBudget st \<and>
       st2 = \<lparr>remainingBudget = remainingBudget st - cost,
              totalQuantityMicro = totalQuantityMicro st + takeMicro,
              loop_totalCostMicro = loop_totalCostMicro st + cost,
              selected = selected st @
                [\<lparr>sellOrderId = order_id order, batchDenom = batch_denom order,
                  sel_quantity = toMicroQuantityString takeMicro, askAmount = ask_amount order,
                  askDenom = ask_denom order, costMicro = cost\<rparr>]\<rparr>"
    then obtain price takeMicro cost where p: "BigInt (ask_amount order) = Inr price" "0 < price" "0 < takeMicro"
      and c: "cost = (price * takeMicro + MICRO_CREDITS - 1) sdiv MICRO_CREDITS"
      and s: "selected st2 = selected st @
                [\<lparr>sellOrderId = order_id order, batchDenom = batch_denom order,
                  sel_quantity = toMicroQuantityString takeMicro, askAmount = ask_amount order,
                  askDenom = ask_denom order, costMicro = cost\<rparr>]"
      by auto
    from p have "0 \<le> price * takeMicro" by simp
    from ceil_div_million [OF this] c
    have "cost = ceiling ((of_int (price * takeMicro) :: real) / 1000000)" by simp
    with p have "charged \<lparr>sellOrderId = order_id order, batchDenom = batch_denom order,
                  sel_quantity = toMicroQuantityString takeMicro, askAmount = ask_amount order,
                  askDenom = ask_denom order, costMicro = cost\<rparr>"
      unfolding charged_def by (intro exI [of _ price] exI [of _ takeMicro]) simp
    with s assms(2) show ?thesis by simp
  qed
qed

lemma budget_loop_inv:
  "budget_loop st os = Inr st' \<Longrightarrow> loop_inv B st \<Longrightarrow> list_all charged (selected st) \<Longrightarrow>
     loop_inv B st' \<and> list_all charged (selected st')"
proof (induction os arbitrary: st)
  case Nil
  then show ?case by simp
next
  case (Cons order rest)
  show ?case
  proof (cases "remainingBudget st \<le> 0")
    case True
    with Cons.prems show ?thesis by simp
  next
    case False
    with Cons.prems obtain st2 where s: "select_step st order = Inr st2"
      and l: "budget_loop st2 rest = Inr st'"
      by (auto split: sum.splits)
    from Cons.IH [OF l select_step_inv [OF s Cons.prems(2)] select_step_charged [OF s Cons.prems(3)]]
    show ?thesis .
  qed
qed

lemma selectOrdersForBudget_loop:
  assumes "fst (selectOrdersForBudget ledger now creditType budgetMicro preferredDenom) = Inr sel"
  shows "\<exists>st os. budget_loop \<lparr>remainingBudget = budgetMicro, totalQuantityMicro = 0,
                     loop_totalCostMicro = 0, selected = []\<rparr> os = Inr st \<and>
           orders sel = selected st \<and> totalCostMicro sel = loop_totalCostMicro st \<and>
           remainingBudgetMicro sel = remainingBudget st \<and> 0 < budgetMicro"
  using assms
  by (auto simp: selectOrdersForBudget_def Let_def split: if_splits sum.splits prod.splits)


lemma replicate_upto_6:
  "replicate 1 c = [c]" "replicate 2 c = [c, c]" "replicate 3 c = [c, c, c]"
  "replicate 4 c = [c, c, c, c]" "replicate 5 c = [c, c, c, c, c]"
  "replicate 6 c = [c, c, c, c, c, c]"
  by (simp_all add: numeral_eq_Suc)

lemma BigInt_1000: "BigInt ''1000'' = Inr 1000"
  by (simp add: BigInt_def trim_def is_space_def parse_radix_def digit_val_def)

lemma BigInt_2000: "BigInt ''2000'' = Inr 2000"
  by (simp add: BigInt_def trim_def is_space_def parse_radix_def digit_val_def)

lemma quantity_3500000: "toMicroQuantityString 3500000 = ''3.500000''"
  by (simp add: toMicroQuantityString_def bigint_toString_def sdiv_nonneg_eq_div smod_nonneg_eq_mod
      padStart_def show_nat.simps digit_char_def replicate_upto_6)

lemma quantity_1000000: "toMicroQuantityString 1000000 = ''1.000000''"
  by (simp add: toMicroQuantityString_def bigint_toString_def sdiv_nonneg_eq_div smod_nonneg_eq_mod
      padStart_def show_nat.simps digit_char_def replicate_upto_6)

lemma quantity_1250000: "toMicroQuantityString 1250000 = ''1.250000''"
  by (simp add: toMicroQuantityString_def bigint_toString_def sdiv_nonneg_eq_div smod_nonneg_eq_mod
      padStart_def show_nat.simps digit_char_def replicate_upto_6)

lemma quantity_2250000: "toMicroQuantityString 2250000 = ''2.250000''"
  by (simp add: toMicroQuantityString_def bigint_toString_def sdiv_nonneg_eq_div smod_nonneg_eq_mod
      padStart_def show_nat.simps digit_char_def replicate_upto_6)

lemma selection_5_5:
  "selectOrdersForBudget (scenario_ledger orders_5_5) now creditType 3500 None =
     (if creditType = Some Biodiversity
      then Inr \<lparr>orders = [], totalQuantity = ''0.000000'', totalCostMicro = 0,
                remainingBudgetMicro = 3500, paymentDenom = ''uregen'',
                sel_displayDenom = ''REGEN'', sel_exponent = 6, exhaustedBudget = False\<rparr>
      else Inr \<lparr>orders =
                  [\<lparr>sellOrderId = ''first'', batchDenom = ''C01-001-2026'',
                    sel_quantity = ''3.500000'', askAmount = ''1000'',
                    askDenom = ''uregen'', costMicro = 3500\<rparr>],
                totalQuantity = ''3.500000'', totalCostMicro = 3500,
                remainingBudgetMicro = 0, paymentDenom = ''uregen'',
                sel_displayDenom = ''REGEN'', sel_exponent = 6, exhaustedBudget = True\<rparr>,
      [ListSellOrders, ListCreditClasses, GetAllowedDenoms])"
  by (cases creditType)
     (auto simp: selectOrdersForBudget_def scenario_ledger_def scenario_order_def orders_5_5_def
      promise_all3_def pickDenom_def denom_info_def is_eligible_def credit_type_ok_def
      classTypeMap_def sort_by_price_def select_step_def BigInt_1000 BigInt_2000
      quantity_3500000 MICRO_CREDITS_def sdiv_nonneg_eq_div
      toMicroQuantityString_def bigint_toString_def smod_nonneg_eq_mod padStart_def
      show_nat.simps digit_char_def replicate_upto_6 split: CreditType.splits)

lemma selection_1_5:
  "selectOrdersForBudget (scenario_ledger orders_1_5) 0 (Some Carbon) 3500 None =
     (Inr \<lparr>orders =
             [\<lparr>sellOrderId = ''first'', batchDenom = ''C01-001-2026'',
               sel_quantity = ''1.000000'', askAmount = ''1000'',
               askDenom = ''uregen'', costMicro = 1000\<rparr>,
              \<lparr>sellOrderId = ''second'', batchDenom = ''C01-001-2026'',
               sel_quantity = ''1.250000'', askAmount = ''2000'',
               askDenom = ''uregen'', costMicro = 2500\<rparr>],
           totalQuantity = ''2.250000'', totalCostMicro = 3500,
           remainingBudgetMicro = 0, paymentDenom = ''uregen'',
           sel_displayDenom = ''REGEN'', sel_exponent = 6, exhaustedBudget = True\<rparr>,
      [ListSellOrders, ListCreditClasses, GetAllowedDenoms])"
  by (simp add: selectOrdersForBudget_def scenario_ledger_def scenario_order_def orders_1_5_def
      promise_all3_def pickDenom_def denom_info_def is_eligible_def credit_type_ok_def
      classTypeMap_def sort_by_price_def select_step_def BigInt_1000 BigInt_2000
      quantity_1000000 quantity_1250000 quantity_2250000 MICRO_CREDITS_def sdiv_nonneg_eq_div)

text \<open>
  Claim C2. Whenever \<open>selectOrdersForBudget\<close> returns a selection, the cost charged for
  each selected order is positive and at most the budget that remained when the order
  was selected (the budget less the costs of the orders selected before it), every
  such cost is the ceiling of price times quantity taken over one million, and the costs
  sum to at most \<open>budgetMicro\<close>; the reported total cost is that sum and the reported
  remaining budget is the rest.
\<close>

theorem selectOrdersForBudget_budget_bound:
  assumes "fst (selectOrdersForBudget ledger now creditType budgetMicro preferredDenom) = Inr sel"
  shows "(\<forall>k < length (orders sel).
            0 < costMicro (orders sel ! k) \<and>
            costMicro (orders sel ! k)
              \<le> budgetMicro - sum_list (map costMicro (take k (orders sel)))) \<and>
         list_all charged (orders sel) \<and>
         sum_list (map costMicro (orders sel)) \<le> budgetMicro \<and>
         totalCostMicro sel = sum_list (map costMicro (orders sel)) \<and>
         remainingBudgetMicro sel = budgetMicro - totalCostMicro sel"
proof -
  from selectOrdersForBudget_loop [OF assms] obtain st os where
    l: "budget_loop \<lparr>remainingBudget = budgetMicro, totalQuantityMicro = 0,
                      loop_totalCostMicro = 0, selected = []\<rparr> os = Inr st"
    and o: "orders sel = selected st" and t: "totalCostMicro sel = loop_totalCostMicro st"
    and r: "remainingBudgetMicro sel = remainingBudget st" and b: "0 < budgetMicro"
    by blast
  have "loop_inv budgetMicro \<lparr>remainingBudget = budgetMicro, totalQuantityMicro = 0,
                      loop_totalCostMicro = 0, selected = []\<rparr>"
    by (simp add: loop_inv_def)
  from budget_loop_inv [OF l this] have i: "loop_inv budgetMicro st"
    and c: "list_all charged (selected st)"
    by simp_all
  from i have w: "within_budget budgetMicro (orders sel)"
    and rem: "remainingBudgetMicro sel = budgetMicro - sum_list (map costMicro (orders sel))"
    and tot: "totalCostMicro sel = sum_list (map costMicro (orders sel))"
    by (simp_all add: loop_inv_def o t r)
  from b have "0 \<le> budgetMicro" by simp
  from within_budget_sum [OF w this] within_budget_nth [OF w] c rem tot show ?thesis
    by (simp add: o)
qed

theorem selectOrdersForBudget_budget_bound_witness:
  "sum_list (map costMicro
     [\<lparr>sellOrderId = ''first'', batchDenom = ''C01-001-2026'',
       sel_quantity = ''1.000000'', askAmount = ''1000'',
       askDenom = ''uregen'', costMicro = 1000\<rparr>,
      \<lparr>sellOrderId = ''second'', batchDenom = ''C01-001-2026'',
       sel_quantity = ''1.250000'', askAmount = ''2000'',
       askDenom = ''uregen'', costMicro = 2500\<rparr>]) \<le> 3500 \<and>
   fst (selectOrdersForBudget (scenario_ledger orders_1_5) 0 (Some Carbon) 3500 None) =
     Inr \<lparr>orders =
             [\<lparr>sellOrderId = ''first'', batchDenom = ''C01-001-2026'',
               sel_quantity = ''1.000000'', askAmount = ''1000'',
               askDenom = ''uregen'', costMicro = 1000\<rparr>,
              \<lparr>sellOrderId = ''second'', batchDenom = ''C01-001-2026'',
               sel_quantity = ''1.250000'', askAmount = ''2000'',
               askDenom = ''uregen'', costMicro = 2500\<rparr>],
           totalQuantity = ''2.250000'', totalCostMicro = 3500,
           remainingBudgetMicro = 0, paymentDenom = ''uregen'',
           sel_displayDenom = ''REGEN'', sel_exponent = 6, exhaustedBudget = True\<rparr>"
  using selectOrdersForBudget_budget_bound
    [of "scenario_ledger orders_1_5" 0 "Some Carbon" 3500 None
        "\<lparr>orders =
             [\<lparr>sellOrderId = ''first'', batchDenom = ''C01-001-2026'',
               sel_quantity = ''1.000000'', askAmount = ''1000'',
               askDenom = ''uregen'', costMicro = 1000\<rparr>,
              \<lparr>sellOrderId = ''second'', batchDenom = ''C01-001-2026'',
               sel_quantity = ''1.250000'', askAmount = ''2000'',
               askDenom = ''uregen'', costMicro = 2500\<rparr>],
           totalQuantity = ''2.250000'', totalCostMicro = 3500,
           remainingBudgetMicro = 0, paymentDenom = ''uregen'',
           sel_displayDenom = ''REGEN'', sel_exponent = 6, exhaustedBudget = True\<rparr>"]
  by (simp add: selection_1_5)

text \<open>
  Claim C7 (as stated). For the sell orders \<open>{ask:1000, qty:5}\<close> and \<open>{ask:2000, qty:5}\<close>
  with budget 3500 the claim expects quantity 1.0 at cost 1000 from the first order, 1.25
  at cost 2500 from the second, and a total quantity of 2.25. The selection computed is
  not that one.
\<close>

theorem selectOrdersForBudget_scenario_counterexample:
  "\<not> (\<exists>sel. fst (selectOrdersForBudget (scenario_ledger orders_5_5) 0 None 3500 None) = Inr sel \<and>
         map (\<lambda>x. (sel_quantity x, costMicro x)) (orders sel) =
           [(''1.000000'', 1000), (''1.250000'', 2500)] \<and>
         totalCostMicro sel = 3500 \<and> totalQuantity sel = ''2.250000'' \<and>
         remainingBudgetMicro sel = 0)"
  by (simp add: selection_5_5)

text \<open>
  Claim C7 (amended). For the sell orders \<open>{ask:1000, qty:5}\<close> and \<open>{ask:2000, qty:5}\<close>
  with budget 3500, \<open>selectOrdersForBudget\<close> takes 3.5 credits from the first order at
  cost 3500 and nothing from the second: total cost 3500, total quantity 3.500000,
  \<open>remainingBudgetMicro = 0\<close> and \<open>exhaustedBudget\<close> set.
\<close>

theorem selectOrdersForBudget_scenario:
  "\<exists>sel. fst (selectOrdersForBudget (scenario_ledger orders_5_5) now None 3500 None) = Inr sel \<and>
     map (\<lambda>x. (sellOrderId x, sel_quantity x, costMicro x)) (orders sel) =
       [(''first'', ''3.500000'', 3500)] \<and>
     totalCostMicro sel = 3500 \<and> totalQuantity sel = ''3.500000'' \<and>
     remainingBudgetMicro sel = 0 \<and> exhaustedBudget sel"
  by (simp add: selection_5_5)

text \<open>
  Claim C10. For every \<open>budgetMicro \<le> 0\<close>, \<open>selectOrdersForBudget\<close> throws the error
  "budgetMicro must be greater than zero" and has performed no ledger read; it does not
  return an empty selection.
\<close>

theorem selectOrdersForBudget_rejects_nonpositive_budget:
  assumes "budgetMicro \<le> 0"
  shows "selectOrdersForBudget ledger now creditType budgetMicro preferredDenom =
           (Inl (Error ''budgetMicro must be greater than zero''), [])"
  using assms by (simp add: selectOrdersForBudget_def)

theorem selectOrdersForBudget_rejects_nonpositive_budget_witness:
  "selectOrdersForBudget (scenario_ledger orders_5_5) 0 (Some Carbon) 0 None =
     (Inl (Error ''budgetMicro must be greater than zero''), [])"
  using selectOrdersForBudget_rejects_nonpositive_budget
    [of 0 "scenario_ledger orders_5_5" 0 "Some Carbon" None]
  by simp
section \<open>Payment server: webhook deliveries\<close>

lemma find_map_preserved:
  assumes "\<And>x. P (f x) = P x"
  shows "find P (map f xs) = map_option f (find P xs)"
  using assms by (induction xs) simp_all

lemma find_snoc:
  "find P (xs @ [y]) = (case find P xs of Some x \<Rightarrow> Some x | None \<Rightarrow> if P y then Some y else None)"
  by (induction xs) simp_all

lemma find_Some_member: "find P xs = Some x \<Longrightarrow> x \<in> set xs \<and> P x"
  by (induction xs) (auto split: if_splits)

lemma find_member_not_None: "x \<in> set xs \<Longrightarrow> P x \<Longrightarrow> find P xs \<noteq> None"
  by (induction xs) auto

lemma creditBalance_found:
  assumes "getUserByEmail db e = Some u"
  shows "creditBalance db (user_id u) a sid d =
           Inr (db\<lparr>users := map (\<lambda>x. if user_id x = user_id u
                                     then x\<lparr>balance_cents := balance_cents x + a\<rparr> else x) (users db),
                    transactions := transactions db @
                      [\<lparr>txn_id = next_txn_id db, txn_user_id = user_id u, txn_type = Topup,
                        amount_cents = a, description = Some d, stripe_session_id = Some sid,
                        retirement_tx_hash = None, credit_class = None\<rparr>],
                    next_txn_id := Suc (next_txn_id db)\<rparr>)"
proof -
  from assms have "u \<in> set (users db)"
    by (auto simp: getUserByEmail_def dest: find_Some_member)
  then have "find (\<lambda>x. user_id x = user_id u) (users db) \<noteq> None"
    by (rule find_member_not_None) simp
  then show ?thesis by (simp add: creditBalance_def)
qed

lemma getUserByEmail_credited:
  "getUserByEmail
     (db\<lparr>users := map (\<lambda>x. if user_id x = uid
                             then x\<lparr>balance_cents := balance_cents x + a\<rparr> else x) (users db),
         transactions := ts, next_txn_id := n\<rparr>) e =
   map_option (\<lambda>x. if user_id x = uid then x\<lparr>balance_cents := balance_cents x + a\<rparr> else x)
     (getUserByEmail db e)"
  by (simp add: getUserByEmail_def find_map_preserved)

lemma handle_checkout_completed_found:
  assumes "customer_email session = Some e" and "e \<noteq> []" and "amount_total session = Some a"
    and "getUserByEmail db e = Some u"
  shows "handle_checkout_completed k session db =
           Inr (db\<lparr>users := map (\<lambda>x. if user_id x = user_id u
                                     then x\<lparr>balance_cents := balance_cents x + a\<rparr> else x) (users db),
                    transactions := transactions db @
                      [topup_row (next_txn_id db) (user_id u) a (session_id session)],
                    next_txn_id := Suc (next_txn_id db)\<rparr>)"
  using assms creditBalance_found [OF assms(4)]
  by (simp add: handle_checkout_completed_def truthy_def topup_row_def)

lemma handle_checkout_completed_new:
  assumes "customer_email session = Some e" and "e \<noteq> []" and "amount_total session = Some a"
    and "getUserByEmail db e = None" and "handle_checkout_completed k session db = Inr db1"
  shows "db1 = db\<lparr>users :=
                   map (\<lambda>x. if user_id x = next_user_id db
                             then x\<lparr>balance_cents := balance_cents x + a\<rparr> else x)
                     (users db @ [\<lparr>user_id = next_user_id db, api_key = k, email = Some e,
                                   balance_cents = 0, stripe_customer_id = customer session\<rparr>]),
                 transactions := transactions db @
                   [topup_row (next_txn_id db) (next_user_id db) a (session_id session)],
                 next_user_id := Suc (next_user_id db),
                 next_txn_id := Suc (next_txn_id db)\<rparr>"
  using assms
  by (auto simp: handle_checkout_completed_def truthy_def topup_row_def createUser_def
      creditBalance_def Let_def split: if_splits)


lemma handle_checkout_completed_twice:
  assumes ce: "customer_email session = Some e" and ne: "e \<noteq> []"
    and am: "amount_total session = Some a"
    and h1: "handle_checkout_completed k1 session db = Inr db1"
  shows "\<exists>db2 uid. handle_checkout_completed k2 session db1 = Inr db2 \<and>
           balance_of db1 e = balance_of db e + a \<and>
           balance_of db2 e = balance_of db e + 2 * a \<and>
           transactions db2 = transactions db @
             [topup_row (next_txn_id db) uid a (session_id session),
              topup_row (Suc (next_txn_id db)) uid a (session_id session)] \<and>
           length (users db2) = length (users db1)"
proof (cases "getUserByEmail db e")
  case None
  let ?new = "\<lparr>user_id = next_user_id db, api_key = k1, email = Some e,
                balance_cents = 0, stripe_customer_id = customer session\<rparr>"
  let ?upd = "\<lambda>x. if user_id x = next_user_id db
                   then x\<lparr>balance_cents := balance_cents x + a\<rparr> else x"
  from handle_checkout_completed_new [OF ce ne am None h1]
  have u1: "users db1 = map ?upd (users db @ [?new])"
    and t1: "transactions db1 = transactions db @
               [topup_row (next_txn_id db) (next_user_id db) a (session_id session)]"
    and n1: "next_txn_id db1 = Suc (next_txn_id db)"
    by simp_all
  from None have "find (\<lambda>u. email u = Some e) (users db @ [?new]) = Some ?new"
    by (simp add: getUserByEmail_def find_snoc)
  then have g1: "getUserByEmail db1 e = Some (?new\<lparr>balance_cents := a\<rparr>)"
    by (simp add: getUserByEmail_def u1 find_map_preserved del: map_append)
  let ?db2 = "db1\<lparr>users := map ?upd (users db1),
               transactions := transactions db1 @
                 [topup_row (next_txn_id db1) (next_user_id db) a (session_id session)],
               next_txn_id := Suc (next_txn_id db1)\<rparr>"
  from handle_checkout_completed_found [OF ce ne am g1, of k2]
  have h2: "handle_checkout_completed k2 session db1 = Inr ?db2"
    by simp
  from g1 have g2: "getUserByEmail ?db2 e = Some (?new\<lparr>balance_cents := a + a\<rparr>)"
    by (simp add: getUserByEmail_def find_map_preserved)
  have b0: "balance_of db e = 0"
    using None by (simp add: balance_of_def)
  have b1: "balance_of db1 e = a"
    using g1 by (simp add: balance_of_def)
  have b2: "balance_of ?db2 e = a + a"
    using g2 by (simp add: balance_of_def)
  have t2: "transactions ?db2 = transactions db @
             [topup_row (next_txn_id db) (next_user_id db) a (session_id session),
              topup_row (Suc (next_txn_id db)) (next_user_id db) a (session_id session)]"
    by (simp add: t1 n1)
  have l2: "length (users ?db2) = length (users db1)"
    by simp
  from h2 b0 b1 b2 t2 l2 show ?thesis
    by (intro exI [of _ ?db2] exI [of _ "next_user_id db"]) simp
next
  case (Some u)
  let ?upd = "\<lambda>x. if user_id x = user_id u
                   then x\<lparr>balance_cents := balance_cents x + a\<rparr> else x"
  from handle_checkout_completed_found [OF ce ne am Some, of k1] h1
  have d1: "db1 = db\<lparr>users := map ?upd (users db),
                     transactions := transactions db @
                       [topup_row (next_txn_id db) (user_id u) a (session_id session)],
                     next_txn_id := Suc (next_txn_id db)\<rparr>"
    by simp
  then have u1: "users db1 = map ?upd (users db)"
    and t1: "transactions db1 = transactions db @
               [topup_row (next_txn_id db) (user_id u) a (session_id session)]"
    and n1: "next_txn_id db1 = Suc (next_txn_id db)"
    by simp_all
  from Some have g1: "getUserByEmail db1 e = Some (u\<lparr>balance_cents := balance_cents u + a\<rparr>)"
    by (simp add: getUserByEmail_def u1 find_map_preserved)
  let ?db2 = "db1\<lparr>users := map ?upd (users db1),
               transactions := transactions db1 @
                 [topup_row (next_txn_id db1) (user_id u) a (session_id session)],
               next_txn_id := Suc (next_txn_id db1)\<rparr>"
  from handle_checkout_completed_found [OF ce ne am g1, of k2]
  have h2: "handle_checkout_completed k2 session db1 = Inr ?db2"
    by simp
  from g1 have g2: "getUserByEmail ?db2 e =
      Some (u\<lparr>balance_cents := balance_cents u + a + a\<rparr>)"
    by (simp add: getUserByEmail_def find_map_preserved)
  have b0: "balance_of db e = balance_cents u"
    using Some by (simp add: balance_of_def)
  have b1: "balance_of db1 e = balance_cents u + a"
    using g1 by (simp add: balance_of_def)
  have b2: "balance_of ?db2 e = balance_cents u + a + a"
    using g2 by (simp add: balance_of_def)
  have t2: "transactions ?db2 = transactions db @
             [topup_row (next_txn_id db) (user_id u) a (session_id session),
              topup_row (Suc (next_txn_id db)) (user_id u) a (session_id session)]"
    by (simp add: t1 n1)
  have l2: "length (users ?db2) = length (users db1)"
    by simp
  from h2 b0 b1 b2 t2 l2 show ?thesis
    by (intro exI [of _ ?db2] exI [of _ "user_id u"]) simp
qed

lemma webhook_bad_signature_rejected:
  assumes "truthy webhookSecret" and "truthy (stripe_signature req)"
    and "constructEvent (raw_body req) (the (stripe_signature req)) (the webhookSecret) = Inl err"
  shows "webhook constructEvent parseBody webhookSecret apiKey req db =
           (Inr \<lparr>status = 400, json = ErrorBody (''Webhook Error: '' @ error_message err)\<rparr>, db)"
  using assms by (simp add: webhook_def decode_event_def)

lemma webhook_topup_first:
  "webhook accept_all parse_topup (Some ''whsec_test'') ''rfa_key1'' signed_request empty_db =
     (Inr \<lparr>status = 200, json = Received\<rparr>,
      \<lparr>users = [\<lparr>user_id = 1, api_key = ''rfa_key1'', email = Some ''user@example.com'',
                  balance_cents = 1000, stripe_customer_id = None\<rparr>],
        transactions = [topup_row 1 1 1000 ''cs_1''],
        next_user_id = 2, next_txn_id = 2\<rparr>)"
  by (simp add: webhook_def decode_event_def truthy_def signed_request_def accept_all_def
      topup_event_def handle_checkout_completed_def getUserByEmail_def getUserByApiKey_def
      createUser_def creditBalance_def empty_db_def topup_row_def Let_def)

lemma webhook_topup_replay:
  "webhook accept_all parse_topup (Some ''whsec_test'') ''rfa_key2'' signed_request
     \<lparr>users = [\<lparr>user_id = 1, api_key = ''rfa_key1'', email = Some ''user@example.com'',
                  balance_cents = 1000, stripe_customer_id = None\<rparr>],
        transactions = [topup_row 1 1 1000 ''cs_1''],
        next_user_id = 2, next_txn_id = 2\<rparr> =
     (Inr \<lparr>status = 200, json = Received\<rparr>,
      \<lparr>users = [\<lparr>user_id = 1, api_key = ''rfa_key1'', email = Some ''user@example.com'',
                  balance_cents = 2000, stripe_customer_id = None\<rparr>],
        transactions = [topup_row 1 1 1000 ''cs_1'', topup_row 2 1 1000 ''cs_1''],
        next_user_id = 2, next_txn_id = 3\<rparr>)"
  by (simp add: webhook_def decode_event_def truthy_def signed_request_def accept_all_def
      topup_event_def handle_checkout_completed_def getUserByEmail_def getUserByApiKey_def
      createUser_def creditBalance_def empty_db_def topup_row_def Let_def)

text \<open>
  Claim C5. With a webhook secret configured, a \<open>POST /webhook\<close> request whose
  signature is missing or fails verification must be answered with status 400 and leave
  the store as it was. A request with no \<open>stripe-signature\<close> header is instead decoded
  without verification and processed: with the secret set and a verifier that rejects
  every signature, the unsigned delivery of a completed checkout is answered with status
  200 and has created a user and credited 1000 cents.
\<close>

theorem webhook_unsigned_delivery_processed:
  "webhook reject_all parse_topup (Some ''whsec_test'') ''rfa_key1'' unsigned_request empty_db =
     (Inr \<lparr>status = 200, json = Received\<rparr>,
      \<lparr>users = [\<lparr>user_id = 1, api_key = ''rfa_key1'', email = Some ''user@example.com'',
                  balance_cents = 1000, stripe_customer_id = None\<rparr>],
        transactions = [topup_row 1 1 1000 ''cs_1''],
        next_user_id = 2, next_txn_id = 2\<rparr>)"
  by (simp add: webhook_def decode_event_def truthy_def unsigned_request_def parse_topup_def
      topup_event_def handle_checkout_completed_def getUserByEmail_def getUserByApiKey_def
      createUser_def creditBalance_def empty_db_def topup_row_def Let_def)

text \<open>
  Claim C6 (as stated). Processing the same checkout-completed event a second time is a
  no-op: the balance is credited once and no second record is added. On the store left
  by the first delivery, the second delivery of the same request changes the store.
\<close>

theorem webhook_replay_counterexample:
  "\<not> (snd (webhook accept_all parse_topup (Some ''whsec_test'') ''rfa_key2'' signed_request
             (snd (webhook accept_all parse_topup (Some ''whsec_test'') ''rfa_key1''
                     signed_request empty_db))) =
        snd (webhook accept_all parse_topup (Some ''whsec_test'') ''rfa_key1''
               signed_request empty_db))"
  unfolding webhook_topup_first snd_conv webhook_topup_replay
  by simp

text \<open>
  Claim C6 (amended). The receiver keeps no record keyed by the event id and records no
  Contribution: every accepted delivery of a checkout-completed event with a customer
  email credits that user's prepaid balance by \<open>amount_total\<close> and appends one top-up
  transaction carrying the checkout session id. A replay of an already-processed event
  is answered with status 200 again, credits the balance a second time and appends a
  second top-up transaction, without creating a second user.
\<close>

theorem webhook_replay_credits_twice:
  assumes dec: "decode_event constructEvent parseBody webhookSecret req = Inr (Inr ev)"
    and ty: "event_type ev = ''checkout.session.completed''"
    and ce: "customer_email (data_object ev) = Some e" and ne: "e \<noteq> []"
    and am: "amount_total (data_object ev) = Some a"
    and first: "webhook constructEvent parseBody webhookSecret k1 req db = (Inr r1, db1)"
  shows "r1 = \<lparr>status = 200, json = Received\<rparr> \<and>
         balance_of db1 e = balance_of db e + a \<and>
         (\<exists>db2 uid.
            webhook constructEvent parseBody webhookSecret k2 req db1 =
              (Inr \<lparr>status = 200, json = Received\<rparr>, db2) \<and>
            balance_of db2 e = balance_of db e + 2 * a \<and>
            transactions db2 = transactions db @
              [topup_row (next_txn_id db) uid a (session_id (data_object ev)),
               topup_row (Suc (next_txn_id db)) uid a (session_id (data_object ev))] \<and>
            length (users db2) = length (users db1))"
proof -
  from first dec ty have h1: "handle_checkout_completed k1 (data_object ev) db = Inr db1"
    and r1: "r1 = \<lparr>status = 200, json = Received\<rparr>"
    by (auto simp: webhook_def split: sum.splits)
  from handle_checkout_completed_twice [OF ce ne am h1, of k2]
  obtain db2 uid where h2: "handle_checkout_completed k2 (data_object ev) db1 = Inr db2"
    and b1: "balance_of db1 e = balance_of db e + a"
    and b2: "balance_of db2 e = balance_of db e + 2 * a"
    and t2: "transactions db2 = transactions db @
              [topup_row (next_txn_id db) uid a (session_id (data_object ev)),
               topup_row (Suc (next_txn_id db)) uid a (session_id (data_object ev))]"
    and l2: "length (users db2) = length (users db1)"
    by blast
  from dec ty h2 have "webhook constructEvent parseBody webhookSecret k2 req db1 =
      (Inr \<lparr>status = 200, json = Received\<rparr>, db2)"
    by (simp add: webhook_def)
  with r1 b1 b2 t2 l2 show ?thesis by blast
qed

theorem webhook_replay_credits_twice_witness:
  "\<lparr>status = 200, json = Received\<rparr> = \<lparr>status = 200, json = Received\<rparr> \<and>
   balance_of
     \<lparr>users = [\<lparr>user_id = 1, api_key = ''rfa_key1'', email = Some ''user@example.com'',
                  balance_cents = 1000, stripe_customer_id = None\<rparr>],
        transactions = [topup_row 1 1 1000 ''cs_1''],
        next_user_id = 2, next_txn_id = 2\<rparr> ''user@example.com'' =
     balance_of empty_db ''user@example.com'' + 1000 \<and>
   (\<exists>db2 uid.
      webhook accept_all parse_topup (Some ''whsec_test'') ''rfa_key2'' signed_request
        \<lparr>users = [\<lparr>user_id = 1, api_key = ''rfa_key1'', email = Some ''user@example.com'',
                  balance_cents = 1000, stripe_customer_id = None\<rparr>],
          transactions = [topup_row 1 1 1000 ''cs_1''],
          next_user_id = 2, next_txn_id = 2\<rparr> =
        (Inr \<lparr>status = 200, json = Received\<rparr>, db2) \<and>
      balance_of db2 ''user@example.com'' = balance_of empty_db ''user@example.com'' + 2 * 1000 \<and>
      transactions db2 = transactions empty_db @
        [topup_row (next_txn_id empty_db) uid 1000 (session_id (data_object topup_event)),
         topup_row (Suc (next_txn_id empty_db)) uid 1000 (session_id (data_object topup_event))] \<and>
      length (users db2) =
        length (users
          \<lparr>users = [\<lparr>user_id = 1, api_key = ''rfa_key1'', email = Some ''user@example.com'',
                  balance_cents = 1000, stripe_customer_id = None\<rparr>],
            transactions = [topup_row 1 1 1000 ''cs_1''],
            next_user_id = 2, next_txn_id = 2\<rparr>))"
proof -
  have dec: "decode_event accept_all parse_topup (Some ''whsec_test'') signed_request =
      Inr (Inr topup_event)"
    by (simp add: decode_event_def truthy_def signed_request_def accept_all_def)
  have ty: "event_type topup_event = ''checkout.session.completed''"
    and ce: "customer_email (data_object topup_event) = Some ''user@example.com''"
    and am: "amount_total (data_object topup_event) = Some 1000"
    by (simp_all add: topup_event_def)
  have ne: "''user@example.com'' \<noteq> []"
    by simp
  show ?thesis
    by (rule webhook_replay_credits_twice [OF dec ty ce ne am webhook_topup_first])
qed

section \<open>Subscription invoices: the walk and what the sync reports\<close>

lemma walk_pages_progress:
  assumes "walk_pages getInvoices toISOString limit n st = Inr st'" and "0 < n"
  shows "(reachedEnd st \<or> reachedEnd st' = (\<not> walk_hasMore st')) \<and>
         walk_pageCount st < walk_pageCount st' \<and> walk_pageCount st' \<le> walk_pageCount st + n"
  using assms
proof (induction n arbitrary: st)
  case 0
  then show ?case by simp
next
  case (Suc n)
  from Suc.prems(1) obtain page where p: "getInvoices limit (startingAfter st) = Inr page"
    by (auto split: sum.splits)
  define st1 where "st1 = st\<lparr>walk_pageCount := walk_pageCount st + 1,
      results := results st @
        List.map_filter (\<lambda>invoice. normalizePaidInvoice toISOString invoice None) (data page),
      walk_hasMore := (has_more page = Some True)\<rparr>"
  define lastId where "lastId = (if data page = [] then None else Some (inv_id (last (data page))))"
  have c1: "walk_pageCount st1 = walk_pageCount st + 1" and r1: "reachedEnd st1 = reachedEnd st"
    by (simp_all add: st1_def)
  from Suc.prems(1) p have w: "(if \<not> walk_hasMore st1 then Inr (st1\<lparr>reachedEnd := True\<rparr>)
            else if \<not> truthy lastId then Inr st1
            else walk_pages getInvoices toISOString limit n (st1\<lparr>startingAfter := lastId\<rparr>)) = Inr st'"
    by (simp only: walk_pages.simps sum.case Let_def st1_def lastId_def)
  show ?case
  proof (cases "walk_hasMore st1")
    case False
    with w have "st' = st1\<lparr>reachedEnd := True\<rparr>" by simp
    with False c1 show ?thesis by simp
  next
    case True
    note more = this
    show ?thesis
    proof (cases "truthy lastId")
      case False
      with w more have "st' = st1" by simp
      with more c1 r1 show ?thesis by auto
    next
      case True
      with w more have rec: "walk_pages getInvoices toISOString limit n (st1\<lparr>startingAfter := lastId\<rparr>) = Inr st'"
        by simp
      show ?thesis
      proof (cases n)
        case 0
        with rec have "st' = st1\<lparr>startingAfter := lastId\<rparr>" by simp
        with more c1 r1 0 show ?thesis by auto
      next
        case (Suc m)
        then have "0 < n" by simp
        from Suc.IH [OF rec this] c1 r1 show ?thesis by auto
      qed
    qed
  qed
qed

lemma clampMaxPages_range:
  "1 \<le> clampMaxPages rawMaxPages \<and> clampMaxPages rawMaxPages \<le> 50 \<and> clampMaxPages None = 10"
  by (simp add: clampMaxPages_def split: option.splits)

lemma listPaidInvoicesAcrossCustomers_walk:
  assumes "listPaidInvoicesAcrossCustomers getInvoices toISOString sortByPaidAt rawLimit rawMaxPages = Inr r"
  shows "truncated r = hasMore r \<and> 1 \<le> pageCount r \<and> int (pageCount r) \<le> maxPages r \<and>
         maxPages r = clampMaxPages rawMaxPages"
proof -
  let ?st0 = "\<lparr>results = [], startingAfter = None, walk_pageCount = 0,
               walk_hasMore = False, reachedEnd = False\<rparr>"
  from assms obtain st where
    w: "walk_pages getInvoices toISOString (clampInvoiceFetchLimit rawLimit)
          (nat (clampMaxPages rawMaxPages)) ?st0 = Inr st"
    and r: "r = \<lparr>invoices = sortByPaidAt (results st), truncated = (\<not> reachedEnd st),
                 hasMore = walk_hasMore st, pageCount = walk_pageCount st,
                 maxPages = clampMaxPages rawMaxPages\<rparr>"
    by (auto simp: listPaidInvoicesAcrossCustomers_def split: sum.splits)
  have pos: "0 < nat (clampMaxPages rawMaxPages)"
    using clampMaxPages_range [of rawMaxPages] by simp
  from walk_pages_progress [OF w pos] clampMaxPages_range [of rawMaxPages] r
  show ?thesis by auto
qed

lemma endless_walk:
  "listPaidInvoicesAcrossCustomers endless_stripe toISOString sortByPaidAt None (Some 2) =
     Inr \<lparr>invoices = sortByPaidAt
            [\<lparr>invoiceId = ''in_1'', customerId = ''cus_a'', customerEmail = Some ''a@example.com'',
              subscriptionId = None, priceId = None, amountPaidCents = 100,
              paidAt = toISOString 1772323200000\<rparr>,
             \<lparr>invoiceId = ''in_1'', customerId = ''cus_a'', customerEmail = Some ''a@example.com'',
              subscriptionId = None, priceId = None, amountPaidCents = 100,
              paidAt = toISOString 1772323200000\<rparr>],
          truncated = True, hasMore = True, pageCount = 2, maxPages = 2\<rparr>"
  by (simp add: listPaidInvoicesAcrossCustomers_def clampMaxPages_def clampInvoiceFetchLimit_def
      numeral_2_eq_2 endless_stripe_def Let_def List.map_filter_def normalizePaidInvoice_def
      or_else_def truthy_def toLowerCase_def to_lower_char_def)

text \<open>
  Claim C8. The all-customers walk itself stops when \<open>has_more\<close> is false or after
  \<open>maxPages\<close> pages and reports \<open>truncated\<close> exactly when it stopped with \<open>has_more\<close>
  true (\<open>listPaidInvoicesAcrossCustomers_walk\<close>). The sync does not report it:
  \<open>syncPaidInvoices\<close> with \<open>allCustomers\<close> set handles the object the walk resolves to
  as an array, so once the walk has answered, the call throws a TypeError (or the month
  format error) and returns no result, and its result type has no \<open>truncated\<close> field.
\<close>

theorem syncPaidInvoices_all_customers_throws:
  assumes "in_allCustomers input"
    and "dep_listPaidInvoicesAcrossCustomers deps (in_limit input) (in_maxPages input) = Inr page"
  shows "syncPaidInvoices deps input pool =
           (Inl (if normalize (in_month input) = None
                 then TypeError ''invoices is not iterable''
                 else if MONTH_REGEX_test (the (normalize (in_month input)))
                 then TypeError ''fetched.filter is not a function''
                 else Error ''month must be in YYYY-MM format''), pool)"
  using assms
  by (cases "normalize (in_month input)")
     (simp_all add: syncPaidInvoices_def Let_def fetched_filter_def fetched_iterate_def)

theorem syncPaidInvoices_all_customers_throws_witness:
  "syncPaidInvoices stub_deps truncation_input () =
     (Inl (TypeError ''fetched.filter is not a function''), ())"
proof -
  have a: "in_allCustomers truncation_input"
    by (simp add: truncation_input_def)
  have b: "dep_listPaidInvoicesAcrossCustomers stub_deps (in_limit truncation_input)
             (in_maxPages truncation_input) = Inr truncated_page"
    by (simp add: stub_deps_def)
  have m: "normalize (in_month truncation_input) = Some ''2026-03''"
    by (simp add: truncation_input_def normalize_def trim_def is_space_def)
  have t: "MONTH_REGEX_test ''2026-03''"
    by (simp add: MONTH_REGEX_test_def is_digit_def)
  from syncPaidInvoices_all_customers_throws [OF a b, of "()"] m t show ?thesis
    by simp
qed
section \<open>Auth sessions: the use of a recovery token\<close>

lemma safeEquals_iff: "safeEquals a b = (a = b)"
  by (auto simp: safeEquals_def)

lemma find_append_first: "find p xs = Some x \<Longrightarrow> find p (xs @ ys) = Some x"
  by (induction xs) (auto split: if_splits)

lemma find_update_first_same:
  assumes "\<And>x. p (f x) = p x"
  shows "find p (update_first p f xs) = map_option f (find p xs)"
  using assms by (induction xs) simp_all

lemma find_update_first_kept:
  assumes q: "\<And>x. q (f x) = q x" and c: "\<And>x. C x \<Longrightarrow> C (f x)"
    and "find q xs = Some r" and "C r"
  shows "\<exists>r'. find q (update_first p f xs) = Some r' \<and> C r'"
  using assms(3,4)
proof (induction xs)
  case Nil
  then show ?case by simp
next
  case (Cons x xs)
  show ?case
  proof (cases "p x")
    case True
    with Cons.prems q [of x] c [of x] show ?thesis
      by (auto split: if_splits)
  next
    case False
    with Cons show ?thesis
      by (auto split: if_splits)
  qed
qed

lemma recoverWithToken_success:
  assumes "recoverWithToken deps now sessionUuid inputToken st = Inr (recovered, st1)"
  shows "\<exists>token recovery source.
           normalize (Some inputToken) = Some token \<and>
           find (\<lambda>item. tokenHash item = hash_of deps token) (recoveries st) = Some recovery \<and>
           consumedAt recovery = None \<and> now < rec_expiresAt recovery \<and>
           find (\<lambda>item. auth_id item = rec_sessionId recovery) (sessions st) = Some source \<and>
           auth_status source = Verified \<and>
           recovered =
             \<lparr>auth_id = ''auth_'' @ sessionUuid, auth_method = auth_method source,
              auth_status = Verified, auth_createdAt = now,
              auth_expiresAt = toIsoDate now (sessionTtlSeconds deps), verifiedAt = Some now,
              beneficiaryName = beneficiaryName source,
              beneficiaryEmail = beneficiaryEmail source,
              authProvider = authProvider source, authSubject = authSubject source,
              emailCodeHash = None, oauthStateToken = None, verificationAttempts = 0,
              auth_maxVerificationAttempts = maxVerificationAttempts deps\<rparr> \<and>
           st1 = st\<lparr>recoveries :=
                       update_first (\<lambda>item. tokenHash item = hash_of deps token)
                         (\<lambda>item. item\<lparr>consumedAt := Some now\<rparr>) (recoveries st),
                     sessions := sessions st @ [recovered]\<rparr>"
  using assms
  by (auto simp: recoverWithToken_def safeEquals_iff requireSession_def isExpired_def Let_def
      split: option.splits if_splits sum.splits)

lemma token_consumed_after:
  assumes "find (\<lambda>item. tokenHash item = hash_of deps token) (recoveries st) = Some recovery"
  shows "token_consumed deps token
           (st\<lparr>recoveries :=
                 update_first (\<lambda>item. tokenHash item = hash_of deps token)
                   (\<lambda>item. item\<lparr>consumedAt := Some now\<rparr>) (recoveries st),
               sessions := ss\<rparr>)"
  using assms by (simp add: token_consumed_def find_update_first_same)

lemma token_consumed_rejected:
  assumes "token_consumed deps token st" and "normalize (Some inputToken) = Some token"
  shows "recoverWithToken deps now sessionUuid inputToken st =
           Inl (Error ''recovery_token has already been used'')"
  using assms
  by (auto simp: recoverWithToken_def token_consumed_def safeEquals_iff split: option.splits)

lemma alice_startRecovery:
  "startRecovery demo_deps 3000 ''a-b-c'' ''r1'' '' Alice@Example.com'' alice_state =
     Inr (\<lparr>recoveryToken = ''recover_abc'', sr_expiresAt = 86403000, sr_sessionId = ''auth_1''\<rparr>,
          alice_state\<lparr>recoveries := [alice_recovery]\<rparr>)"
  by (simp add: startRecovery_def normalizeEmail_def normalize_def trim_def is_space_def
      toLowerCase_def to_lower_char_def EMAIL_PATTERN_test_def no_space_at_def
      alice_state_def alice_session_def alice_recovery_def demo_deps_def hash_of_def
      toIsoDate_def Let_def)

lemma alice_recoverWithToken:
  "recoverWithToken demo_deps 5000 ''2'' ''recover_abc'' (alice_state\<lparr>recoveries := [alice_recovery]\<rparr>) =
     Inr (alice_recovered,
          \<lparr>sessions = [alice_session, alice_recovered], links = [],
           recoveries = [alice_recovery\<lparr>consumedAt := Some 5000\<rparr>]\<rparr>)"
  by (simp add: recoverWithToken_def normalize_def trim_def is_space_def safeEquals_def
      alice_state_def alice_session_def alice_recovery_def alice_recovered_def demo_deps_def
      hash_of_def toIsoDate_def isExpired_def requireSession_def Let_def)

lemma recoverWithToken_valid:
  assumes n: "normalize (Some inputToken) = Some token"
    and f: "find (\<lambda>item. tokenHash item = hash_of deps token) (recoveries st) = Some recovery"
    and u: "consumedAt recovery = None"
    and e: "now < rec_expiresAt recovery"
    and s: "find (\<lambda>item. auth_id item = rec_sessionId recovery) (sessions st) = Some source"
    and v: "auth_status source = Verified"
  shows "\<exists>recovered.
           recoverWithToken deps now sessionUuid inputToken st =
             Inr (recovered,
                  st\<lparr>recoveries :=
                       update_first (\<lambda>item. tokenHash item = hash_of deps token)
                         (\<lambda>item. item\<lparr>consumedAt := Some now\<rparr>) (recoveries st),
                     sessions := sessions st @ [recovered]\<rparr>) \<and>
           auth_id recovered = ''auth_'' @ sessionUuid \<and>
           auth_status recovered = Verified \<and>
           auth_method recovered = auth_method source \<and>
           beneficiaryName recovered = beneficiaryName source \<and>
           beneficiaryEmail recovered = beneficiaryEmail source \<and>
           authProvider recovered = authProvider source \<and>
           authSubject recovered = authSubject source"
  using assms
  by (simp add: recoverWithToken_def safeEquals_iff requireSession_def isExpired_def Let_def)

lemma run_calls_Cons: "run_calls deps (x # xs) r = run_calls deps xs (store_step deps x r)"
  by (simp add: run_calls_def)

lemma run_calls_Nil: "run_calls deps [] r = r"
  by (simp add: run_calls_def)

text \<open>
  One call after the other, as in the test of the service: the first valid call returns
  a session and the second is rejected.
\<close>

lemma recoverWithToken_serial_second_rejected:
  assumes n: "normalize (Some inputToken) = Some token"
    and f: "find (\<lambda>item. tokenHash item = hash_of deps token) (recoveries st) = Some recovery"
    and u: "consumedAt recovery = None"
    and e: "now1 < rec_expiresAt recovery"
    and s: "find (\<lambda>item. auth_id item = rec_sessionId recovery) (sessions st) = Some source"
    and v: "auth_status source = Verified"
  shows "\<exists>s1. returned (run_calls deps
                  [ReadState c1 (RecoverWithToken now1 u1 inputToken), WriteState c1,
                   ReadState c2 (RecoverWithToken now2 u2 inputToken), WriteState c2] (idle st)) =
               [(c1, Inr (Recovered s1)),
                (c2, Inl (Error ''recovery_token has already been used''))] \<and>
              auth_id s1 = ''auth_'' @ u1 \<and> auth_status s1 = Verified"
proof -
  from recoverWithToken_valid [OF n f u e s v, of u1] obtain s1 where
    r1: "recoverWithToken deps now1 u1 inputToken st =
           Inr (s1, st\<lparr>recoveries :=
                       update_first (\<lambda>item. tokenHash item = hash_of deps token)
                         (\<lambda>item. item\<lparr>consumedAt := Some now1\<rparr>) (recoveries st),
                     sessions := sessions st @ [s1]\<rparr>)"
    and i: "auth_id s1 = ''auth_'' @ u1" "auth_status s1 = Verified"
    by blast
  let ?st1 = "st\<lparr>recoveries :=
                       update_first (\<lambda>item. tokenHash item = hash_of deps token)
                         (\<lambda>item. item\<lparr>consumedAt := Some now1\<rparr>) (recoveries st),
                     sessions := sessions st @ [s1]\<rparr>"
  from token_consumed_after [OF f] have "token_consumed deps token ?st1" .
  from token_consumed_rejected [OF this n]
  have r2: "recoverWithToken deps now2 u2 inputToken ?st1 =
      Inl (Error ''recovery_token has already been used'')" .
  have "returned (run_calls deps
                  [ReadState c1 (RecoverWithToken now1 u1 inputToken), WriteState c1,
                   ReadState c2 (RecoverWithToken now2 u2 inputToken), WriteState c2] (idle st)) =
               [(c1, Inr (Recovered s1)),
                (c2, Inl (Error ''recovery_token has already been used''))]"
    by (simp add: run_calls_Cons run_calls_Nil idle_def r1 r2)
  with i show ?thesis
    by blast
qed

lemma alice_recoverWithToken_again:
  "recoverWithToken demo_deps 6000 ''3'' ''recover_abc'' (alice_state\<lparr>recoveries := [alice_recovery]\<rparr>) =
     Inr (alice_recovered_again,
          \<lparr>sessions = [alice_session, alice_recovered_again], links = [],
           recoveries = [alice_recovery\<lparr>consumedAt := Some 6000\<rparr>]\<rparr>)"
  by (simp add: recoverWithToken_def normalize_def trim_def is_space_def safeEquals_def
      alice_state_def alice_session_def alice_recovery_def alice_recovered_again_def demo_deps_def
      hash_of_def toIsoDate_def isExpired_def requireSession_def Let_def)

text \<open>
  The whole run on the store with the one verified session of Alice: the token is
  minted, then two calls of \<open>recoverWithToken\<close> with it are in flight together. Both
  return a session, and the store keeps only the second.
\<close>

lemma alice_concurrent_run:
  "run_calls demo_deps
     [ReadState 0 (StartRecovery 3000 ''a-b-c'' ''r1'' '' Alice@Example.com''), WriteState 0,
      ReadState 1 (RecoverWithToken 5000 ''2'' ''recover_abc''),
      ReadState 2 (RecoverWithToken 6000 ''3'' ''recover_abc''),
      WriteState 1, WriteState 2] (idle alice_state) =
   \<lparr>store = \<lparr>sessions = [alice_session, alice_recovered_again], links = [],
              recoveries = [alice_recovery\<lparr>consumedAt := Some 6000\<rparr>]\<rparr>,
    inflight = [],
    returned =
      [(0, Inr (Started \<lparr>recoveryToken = ''recover_abc'', sr_expiresAt = 86403000,
                          sr_sessionId = ''auth_1''\<rparr>)),
       (1, Inr (Recovered alice_recovered)),
       (2, Inr (Recovered alice_recovered_again))]\<rparr>"
  by (simp add: run_calls_Cons run_calls_Nil idle_def alice_startRecovery alice_recoverWithToken
      alice_recoverWithToken_again)

text \<open>
  Claim C9. The claim fails on the code when two calls are in flight together. Let the
  store hold, for the token, a record found by its hash, not consumed and not expired,
  whose source session is verified. When the state is read for a second call of
  \<open>recoverWithToken\<close> with the same token before the first call has written its
  state, both calls pass the check of \<open>consumedAt\<close>, and each returns a new verified
  session of its own with the identity of the source: the token has been used twice,
  where the claim says that every call after the first one fails.
\<close>

theorem recoverWithToken_concurrent_calls_both_succeed:
  assumes n: "normalize (Some inputToken) = Some token"
    and f: "find (\<lambda>item. tokenHash item = hash_of deps token) (recoveries st) = Some recovery"
    and u: "consumedAt recovery = None"
    and e1: "now1 < rec_expiresAt recovery"
    and e2: "now2 < rec_expiresAt recovery"
    and s: "find (\<lambda>item. auth_id item = rec_sessionId recovery) (sessions st) = Some source"
    and v: "auth_status source = Verified"
    and d: "c1 \<noteq> c2"
  shows "\<exists>s1 s2.
           returned (run_calls deps
                  [ReadState c1 (RecoverWithToken now1 u1 inputToken),
                   ReadState c2 (RecoverWithToken now2 u2 inputToken),
                   WriteState c1, WriteState c2] (idle st)) =
             [(c1, Inr (Recovered s1)), (c2, Inr (Recovered s2))] \<and>
           auth_id s1 = ''auth_'' @ u1 \<and> auth_id s2 = ''auth_'' @ u2 \<and>
           auth_status s1 = Verified \<and> auth_status s2 = Verified \<and>
           beneficiaryName s1 = beneficiaryName source \<and>
           beneficiaryName s2 = beneficiaryName source \<and>
           beneficiaryEmail s1 = beneficiaryEmail source \<and>
           beneficiaryEmail s2 = beneficiaryEmail source \<and>
           sessions (store (run_calls deps
                  [ReadState c1 (RecoverWithToken now1 u1 inputToken),
                   ReadState c2 (RecoverWithToken now2 u2 inputToken),
                   WriteState c1, WriteState c2] (idle st))) = sessions st @ [s2]"
proof -
  from recoverWithToken_valid [OF n f u e1 s v, of u1] obtain s1 st1 where
    r1: "recoverWithToken deps now1 u1 inputToken st = Inr (s1, st1)"
    and i1: "auth_id s1 = ''auth_'' @ u1" "auth_status s1 = Verified"
      "beneficiaryName s1 = beneficiaryName source" "beneficiaryEmail s1 = beneficiaryEmail source"
    by blast
  from recoverWithToken_valid [OF n f u e2 s v, of u2] obtain s2 where
    r2: "recoverWithToken deps now2 u2 inputToken st =
           Inr (s2, st\<lparr>recoveries :=
                       update_first (\<lambda>item. tokenHash item = hash_of deps token)
                         (\<lambda>item. item\<lparr>consumedAt := Some now2\<rparr>) (recoveries st),
                     sessions := sessions st @ [s2]\<rparr>)"
    and i2: "auth_id s2 = ''auth_'' @ u2" "auth_status s2 = Verified"
      "beneficiaryName s2 = beneficiaryName source" "beneficiaryEmail s2 = beneficiaryEmail source"
    by blast
  let ?run = "run_calls deps
                  [ReadState c1 (RecoverWithToken now1 u1 inputToken),
                   ReadState c2 (RecoverWithToken now2 u2 inputToken),
                   WriteState c1, WriteState c2] (idle st)"
  from d have d': "c2 \<noteq> c1"
    by simp
  have "returned ?run = [(c1, Inr (Recovered s1)), (c2, Inr (Recovered s2))]"
    and "sessions (store ?run) = sessions st @ [s2]"
    using d d' by (simp_all add: run_calls_Cons run_calls_Nil idle_def r1 r2)
  with i1 i2 show ?thesis
    by blast
qed

theorem recoverWithToken_concurrent_calls_both_succeed_witness:
  "\<exists>s1 s2.
     returned (run_calls demo_deps
            [ReadState 1 (RecoverWithToken 5000 ''2'' ''recover_abc''),
             ReadState 2 (RecoverWithToken 6000 ''3'' ''recover_abc''),
             WriteState 1, WriteState 2] (idle (alice_state\<lparr>recoveries := [alice_recovery]\<rparr>))) =
       [(1, Inr (Recovered s1)), (2, Inr (Recovered s2))] \<and>
     auth_id s1 = ''auth_2'' \<and> auth_id s2 = ''auth_3'' \<and>
     auth_status s1 = Verified \<and> auth_status s2 = Verified \<and>
     beneficiaryEmail s1 = Some ''alice@example.com'' \<and>
     beneficiaryEmail s2 = Some ''alice@example.com''"
proof -
  have n: "normalize (Some ''recover_abc'') = Some ''recover_abc''"
    by (simp add: normalize_def trim_def is_space_def)
  have f: "find (\<lambda>item. tokenHash item = hash_of demo_deps ''recover_abc'')
             (recoveries (alice_state\<lparr>recoveries := [alice_recovery]\<rparr>)) = Some alice_recovery"
    by (simp add: alice_recovery_def demo_deps_def hash_of_def)
  have u: "consumedAt alice_recovery = None"
    and e1: "5000 < rec_expiresAt alice_recovery"
    and e2: "6000 < rec_expiresAt alice_recovery"
    by (simp_all add: alice_recovery_def)
  have s: "find (\<lambda>item. auth_id item = rec_sessionId alice_recovery)
             (sessions (alice_state\<lparr>recoveries := [alice_recovery]\<rparr>)) = Some alice_session"
    by (simp add: alice_state_def alice_session_def alice_recovery_def)
  have v: "auth_status alice_session = Verified"
    by (simp add: alice_session_def)
  have d: "(1::nat) \<noteq> 2"
    by simp
  from recoverWithToken_concurrent_calls_both_succeed [OF n f u e1 e2 s v d, of "''2''" "''3''"]
  obtain s1 s2 where
    "returned (run_calls demo_deps
            [ReadState 1 (RecoverWithToken 5000 ''2'' ''recover_abc''),
             ReadState 2 (RecoverWithToken 6000 ''3'' ''recover_abc''),
             WriteState 1, WriteState 2] (idle (alice_state\<lparr>recoveries := [alice_recovery]\<rparr>))) =
       [(1, Inr (Recovered s1)), (2, Inr (Recovered s2))]"
    and "auth_id s1 = ''auth_'' @ ''2''" "auth_id s2 = ''auth_'' @ ''3''"
    and "auth_status s1 = Verified" "auth_status s2 = Verified"
    and "beneficiaryEmail s1 = beneficiaryEmail alice_session"
    and "beneficiaryEmail s2 = beneficiaryEmail alice_session"
    by blast
  then show ?thesis
    by (intro exI [of _ s1] exI [of _ s2]) (simp add: alice_session_def)
qed
section \<open>Retirement service: no throw, refund on a failed broadcast, capture after code 0\<close>




















section \<open>Batch retirement: allocations sum to the total\<close>

lemma insert_entry_sum:
  "sum_list (map f (insert_entry x ys)) = (f x :: int) + sum_list (map f ys)"
  by (induction ys) simp_all

lemma insert_entry_set: "set (insert_entry x ys) = insert x (set ys)"
  by (induction ys) auto

lemma insert_entry_length: "length (insert_entry x ys) = Suc (length ys)"
  by (induction ys) simp_all

lemma insert_entry_distinct:
  "distinct (map e_index (insert_entry x ys)) =
     (e_index x \<notin> e_index ` set ys \<and> distinct (map e_index ys))"
  by (induction ys) (auto simp: insert_entry_set)

lemma sort_entries_sum: "sum_list (map f (sort_entries es)) = (sum_list (map f es) :: int)"
  by (induction es) (simp_all add: sort_entries_def insert_entry_sum)

lemma sort_entries_set: "set (sort_entries es) = set es"
  by (induction es) (simp_all add: sort_entries_def insert_entry_set)

lemma sort_entries_length: "length (sort_entries es) = length es"
  by (induction es) (simp_all add: sort_entries_def insert_entry_length)

lemma sort_entries_distinct:
  "distinct (map e_index (sort_entries es)) = distinct (map e_index es)"
proof (induction es)
  case Nil
  show ?case by (simp add: sort_entries_def)
next
  case (Cons e es)
  have "sort_entries (e # es) = insert_entry e (sort_entries es)"
    by (simp add: sort_entries_def)
  with Cons show ?case
    by (simp add: insert_entry_distinct sort_entries_set)
qed

lemma distribute_index: "map e_index (distribute r es) = map e_index es"
  by (induction es arbitrary: r) simp_all

lemma distribute_length: "length (distribute r es) = length es"
  by (induction es arbitrary: r) simp_all

lemma distribute_sum:
  "0 \<le> r \<Longrightarrow> r \<le> int (length es) \<Longrightarrow>
     sum_list (map base (distribute r es)) = sum_list (map base es) + r"
proof (induction es arbitrary: r)
  case Nil
  then show ?case by simp
next
  case (Cons e es)
  show ?case
  proof (cases "r > 0")
    case True
    with Cons.prems have "0 \<le> r - 1" and "r - 1 \<le> int (length es)"
      by simp_all
    from Cons.IH [OF this] True show ?thesis by simp
  next
    case False
    with Cons.prems show ?thesis by simp
  qed
qed

lemma distribute_nonneg:
  "(\<forall>e \<in> set es. 0 \<le> base e) \<Longrightarrow> (\<forall>e \<in> set (distribute r es). 0 \<le> base e)"
  by (induction es arbitrary: r) auto

lemma sum_list_update_int:
  "k < length xs \<Longrightarrow> sum_list (xs[k := x]) = sum_list xs + x - (xs ! k :: int)"
proof (induction xs arbitrary: k)
  case Nil
  then show ?case by simp
next
  case (Cons y ys)
  then show ?case by (cases k) simp_all
qed

lemma fold_update_length:
  "length (fold (\<lambda>item res. res[e_index item := base item]) es res) = length res"
  by (induction es arbitrary: res) simp_all

lemma fold_update_sum:
  assumes "distinct (map e_index es)" and "\<forall>e \<in> set es. e_index e < length res"
  shows "sum_list (fold (\<lambda>item res. res[e_index item := base item]) es res) =
           sum_list res + sum_list (map (\<lambda>e. base e - res ! e_index e) es)"
  using assms
proof (induction es arbitrary: res)
  case Nil
  then show ?case by simp
next
  case (Cons e es)
  let ?res = "res[e_index e := base e]"
  from Cons.prems have d: "distinct (map e_index es)"
    and r: "\<forall>x \<in> set es. e_index x < length ?res"
    and k: "e_index e < length res"
    and n: "\<forall>x \<in> set es. e_index x \<noteq> e_index e"
    by (auto simp: image_iff)
  from n have same: "map (\<lambda>x. base x - ?res ! e_index x) es = map (\<lambda>x. base x - res ! e_index x) es"
    by (induction es) simp_all
  from Cons.IH [OF d r] same sum_list_update_int [OF k, of "base e"] show ?case
    by simp
qed

lemma fold_update_nonneg:
  assumes "\<forall>e \<in> set es. 0 \<le> base e" and "\<forall>x \<in> set res. (0::int) \<le> x"
  shows "\<forall>x \<in> set (fold (\<lambda>item res. res[e_index item := base item]) es res). 0 \<le> x"
  using assms
proof (induction es arbitrary: res)
  case Nil
  then show ?case by simp
next
  case (Cons e es)
  have "\<forall>x \<in> set (res[e_index e := base e]). 0 \<le> x"
  proof
    fix x assume "x \<in> set (res[e_index e := base e])"
    then have "x \<in> insert (base e) (set res)"
      using set_update_subset_insert by fastforce
    with Cons.prems show "0 \<le> x" by auto
  qed
  with Cons.IH [of "res[e_index e := base e]"] Cons.prems(1) show ?case
    by simp
qed

lemma fill_result_sum:
  assumes "distinct (map e_index es)" and "\<forall>e \<in> set es. e_index e < n"
  shows "sum_list (fill_result n es) = sum_list (map base es)"
proof -
  have z: "map (\<lambda>e. base e - replicate n 0 ! e_index e) es = map base es"
    using assms(2) by (induction es) simp_all
  have "sum_list (replicate n (0::int)) = 0"
    by (induction n) simp_all
  with fold_update_sum [of es "replicate n 0"] assms z show ?thesis
    by (simp add: fill_result_def)
qed

lemma fill_result_length: "length (fill_result n es) = n"
  by (simp add: fill_result_def fold_update_length)

lemma fill_result_nonneg:
  "\<forall>e \<in> set es. 0 \<le> base e \<Longrightarrow> \<forall>x \<in> set (fill_result n es). 0 \<le> x"
  unfolding fill_result_def by (rule fold_update_nonneg) simp_all

lemma div_mod_sum:
  fixes t s :: int
  shows "sum_list (map (\<lambda>w. (t * w) div s) ws) * s + sum_list (map (\<lambda>w. (t * w) mod s) ws) =
           t * sum_list ws"
  by (induction ws) (simp_all add: algebra_simps)

lemma mod_sum_bound:
  fixes t s :: int
  assumes "0 < s"
  shows "0 \<le> sum_list (map (\<lambda>w. (t * w) mod s) ws) \<and>
         sum_list (map (\<lambda>w. (t * w) mod s) ws) \<le> int (length ws) * s"
proof (induction ws)
  case Nil
  show ?case by simp
next
  case (Cons w ws)
  have "0 \<le> (t * w) mod s" "(t * w) mod s < s"
    using assms by simp_all
  with Cons show ?case
    by (simp add: algebra_simps)
qed

lemma remainder_units_range:
  fixes t :: int
  assumes "0 < sum_list ws"
  shows "0 \<le> t - sum_list (map (\<lambda>w. (t * w) div sum_list ws) ws) \<and>
         t - sum_list (map (\<lambda>w. (t * w) div sum_list ws) ws) \<le> int (length ws)"
proof -
  let ?s = "sum_list ws"
  let ?b = "sum_list (map (\<lambda>w. (t * w) div ?s) ws)"
  let ?m = "sum_list (map (\<lambda>w. (t * w) mod ?s) ws)"
  from div_mod_sum [of t ?s ws] have "(t - ?b) * ?s = ?m"
    by (simp add: algebra_simps)
  with mod_sum_bound [OF assms, of t ws]
  have lo: "0 \<le> (t - ?b) * ?s" and hi: "(t - ?b) * ?s \<le> int (length ws) * ?s"
    by simp_all
  from lo assms have "0 \<le> t - ?b"
    by (simp add: zero_le_mult_iff)
  moreover from hi assms have "t - ?b \<le> int (length ws)"
    by simp
  ultimately show ?thesis by simp
qed

lemma entries_base:
  assumes "0 \<le> t" and "0 < s" and "\<forall>w \<in> set ws. 0 \<le> w"
  shows "map base (map (\<lambda>(weight, i).
            \<lparr>e_index = i, e_weight = weight, base = (t * weight) sdiv s,
             remainder = (t * weight) smod s\<rparr>) (zip ws [0..<length ws])) =
         map (\<lambda>w. (t * w) div s) ws"
proof -
  have "map (\<lambda>p. (t * fst p) sdiv s) (zip ws [0..<length ws]) =
        map (\<lambda>p. (t * fst p) div s) (zip ws [0..<length ws])"
  proof (rule map_cong [OF refl])
    fix p assume "p \<in> set (zip ws [0..<length ws])"
    then have "fst p \<in> set ws"
      by (metis in_set_zipE prod.collapse)
    with assms have "0 \<le> t * fst p"
      by simp
    with assms(2) show "(t * fst p) sdiv s = (t * fst p) div s"
      by (simp add: sdiv_nonneg_eq_div)
  qed
  also have "\<dots> = map (\<lambda>w. (t * w) div s) (map fst (zip ws [0..<length ws]))"
    by (simp only: map_map comp_def)
  also have "\<dots> = map (\<lambda>w. (t * w) div s) ws"
    by simp
  finally show ?thesis
    by (simp add: comp_def case_prod_unfold)
qed

lemma entries_index:
  "map e_index (map (\<lambda>(weight, i).
            \<lparr>e_index = i, e_weight = weight, base = f weight,
             remainder = g weight\<rparr>) (zip ws [0..<length ws])) = [0..<length ws]"
proof -
  have "map snd (zip ws [0..<length ws]) = [0..<length ws]"
    by simp
  then show ?thesis
    by (simp add: comp_def case_prod_unfold)
qed

lemma allocateProportionally_positive:
  assumes t: "0 < total'" and ne: "weights \<noteq> []"
    and w: "\<forall>w \<in> set weights. 0 \<le> w" and s: "0 < sum_list weights"
  shows "\<exists>r. allocateProportionally total' weights = Inr r \<and> length r = length weights \<and>
           sum_list r = total' \<and> (\<forall>x \<in> set r. 0 \<le> x)"
proof -
  define S where "S = sum_list weights"
  define entries where "entries = map (\<lambda>(weight, i).
            \<lparr>e_index = i, e_weight = weight, base = (total' * weight) sdiv S,
             remainder = (total' * weight) smod S\<rparr>) (zip weights [0..<length weights])"
  define bumped where "bumped = distribute (total' - sum_list (map base entries)) (sort_entries entries)"
  define result where "result = fill_result (length weights) bumped"
  from t s w have b: "map base entries = map (\<lambda>w. (total' * w) div S) weights"
    unfolding entries_def S_def by (intro entries_base) simp_all
  have i: "map e_index entries = [0..<length weights]"
    unfolding entries_def by (rule entries_index)
  have len: "length entries = length weights"
    by (simp add: entries_def)
  from remainder_units_range [OF s, of total'] b
  have r0: "0 \<le> total' - sum_list (map base entries)"
    and r1: "total' - sum_list (map base entries) \<le> int (length (sort_entries entries))"
    by (simp_all add: S_def sort_entries_length len)
  have bsum: "sum_list (map base bumped) = total'"
    unfolding bumped_def using distribute_sum [OF r0 r1]
    by (simp add: sort_entries_sum)
  have d: "distinct (map e_index bumped)"
    by (simp add: bumped_def distribute_index sort_entries_distinct i)
  have "set (map e_index bumped) = set (map e_index entries)"
    unfolding bumped_def distribute_index set_map sort_entries_set ..
  with i have lt: "\<forall>e \<in> set bumped. e_index e < length weights"
    by (metis atLeastLessThan_iff image_eqI set_map set_upt)
  have "\<forall>e \<in> set entries. 0 \<le> base e"
  proof -
    have "\<forall>x \<in> set (map base entries). 0 \<le> x"
      unfolding b using t s w by (auto simp: S_def pos_imp_zdiv_nonneg_iff)
    then show ?thesis by simp
  qed
  then have nn: "\<forall>e \<in> set bumped. 0 \<le> base e"
    unfolding bumped_def by (intro distribute_nonneg) (simp add: sort_entries_set)
  have rs: "sum_list result = total'"
    unfolding result_def using fill_result_sum [OF d lt] bsum by simp
  have "allocateProportionally total' weights =
          (if sum_list result \<noteq> total' then Inl (Error ''Proportional allocation mismatch'')
           else Inr result)"
    using t ne s
    by (simp add: allocateProportionally_def Let_def result_def bumped_def entries_def S_def)
  with rs have "allocateProportionally total' weights = Inr result"
    by simp
  moreover have "length result = length weights"
    by (simp add: result_def fill_result_length)
  moreover have "\<forall>x \<in> set result. 0 \<le> x"
    unfolding result_def using nn by (rule fill_result_nonneg)
  ultimately show ?thesis
    using rs by blast
qed

lemma allocateProportionally_total:
  assumes t: "0 \<le> total'" and w: "\<forall>w \<in> set weights. 0 \<le> w" and s: "0 < sum_list weights"
  shows "\<exists>r. allocateProportionally total' weights = Inr r \<and> length r = length weights \<and>
           sum_list r = total' \<and> (\<forall>x \<in> set r. 0 \<le> x)"
proof (cases "total' = 0")
  case True
  have "sum_list (map (\<lambda>_. 0::int) weights) = 0"
    by (induction weights) simp_all
  with True show ?thesis
    by (simp add: allocateProportionally_def)
next
  case False
  with t have "0 < total'" by simp
  moreover from s have "weights \<noteq> []" by auto
  ultimately show ?thesis
    using w s by (rule allocateProportionally_positive)
qed

subsection \<open>Decimal texts read back\<close>

lemma digit_char_decimal: "d < 10 \<Longrightarrow> digit_char d \<in> set ''0123456789''"
proof -
  assume "d < 10"
  then have "d \<in> {0, 1, 2, 3, 4, 5, 6, 7, 8, 9}"
    by auto
  then show ?thesis
    by (auto simp: digit_char_def)
qed

lemma digit_val_digit_char: "d < 10 \<Longrightarrow> digit_val (digit_char d) = Some d"
proof -
  assume "d < 10"
  then have "d \<in> {0, 1, 2, 3, 4, 5, 6, 7, 8, 9}"
    by auto
  then show ?thesis
    by (auto simp: digit_char_def digit_val_def)
qed

lemma show_nat_digits: "decimal_digits (show_nat n)"
proof (induction n rule: show_nat.induct)
  case (1 n)
  show ?case
  proof (cases "n < 10")
    case True
    then show ?thesis
      using digit_char_decimal [of n]
      by (subst show_nat.simps) (simp add: decimal_digits_def)
  next
    case False
    with 1 have "decimal_digits (show_nat (n div 10))"
      by simp
    moreover have "digit_char (n mod 10) \<in> set ''0123456789''"
      by (rule digit_char_decimal) simp
    ultimately show ?thesis
      using False by (subst show_nat.simps) (simp add: decimal_digits_def)
  qed
qed

lemma show_nat_nonempty: "show_nat n \<noteq> []"
  by (subst show_nat.simps) simp

lemma show_nat_length: "n < 10 ^ k \<Longrightarrow> 0 < k \<Longrightarrow> length (show_nat n) \<le> k"
proof (induction n arbitrary: k rule: show_nat.induct)
  case (1 n)
  show ?case
  proof (cases "n < 10")
    case True
    with 1(3) show ?thesis
      by (subst show_nat.simps) simp
  next
    case False
    with 1(2) have k: "1 < k"
      by (cases "k = 1") (use 1(3) in simp_all)
    then obtain j where j: "k = Suc j" and "0 < j"
      by (cases k) simp_all
    from 1(2) j have "n div 10 < 10 ^ j"
      by (simp add: less_mult_imp_div_less mult.commute)
    with 1(1) [OF False this \<open>0 < j\<close>] False j show ?thesis
      by (subst show_nat.simps) simp
  qed
qed

lemma parse_digits_append:
  "parse_digits b acc (s @ t) =
     (case parse_digits b acc s of None \<Rightarrow> None | Some a \<Rightarrow> parse_digits b a t)"
  by (induction s arbitrary: acc) (simp_all split: option.splits)

lemma parse_digits_show_nat: "parse_digits 10 0 (show_nat n) = Some n"
proof (induction n rule: show_nat.induct)
  case (1 n)
  show ?case
  proof (cases "n < 10")
    case True
    then show ?thesis
      by (subst show_nat.simps) (simp add: digit_val_digit_char)
  next
    case False
    with 1 have "parse_digits 10 0 (show_nat (n div 10)) = Some (n div 10)"
      by simp
    moreover have "digit_val (digit_char (n mod 10)) = Some (n mod 10)"
      by (rule digit_val_digit_char) simp
    ultimately show ?thesis
      using False by (subst show_nat.simps) (simp add: parse_digits_append)
  qed
qed

lemma parse_digits_zeros: "parse_digits 10 0 (replicate k CHR ''0'') = Some 0"
  by (induction k) (simp_all add: digit_val_def)

lemma decimal_not_space: "c \<in> set ''0123456789'' \<Longrightarrow> \<not> is_space c"
  by (auto simp: is_space_def)

lemma trim_decimal: "decimal_digits s \<Longrightarrow> trim s = s"
proof -
  assume d: "decimal_digits s"
  then have a: "dropWhile is_space s = s"
    by (cases s) (simp_all add: decimal_digits_def decimal_not_space)
  from d have "decimal_digits (rev s)"
    by (simp add: decimal_digits_def)
  then have "dropWhile is_space (rev s) = rev s"
    by (cases "rev s") (simp_all add: decimal_digits_def decimal_not_space)
  with a show ?thesis
    by (simp add: trim_def)
qed

lemma string_to_bigint_decimal:
  assumes "decimal_digits s" and "s \<noteq> []"
  shows "string_to_bigint s = map_option int (parse_digits 10 0 s)"
proof -
  from assms(2) obtain c cs where s: "s = c # cs"
    by (cases s) simp_all
  with assms(1) have c: "c \<in> set ''0123456789''"
    by (simp add: decimal_digits_def)
  have h: "cs \<noteq> [] \<Longrightarrow> hd cs \<in> set ''0123456789''"
    using assms(1) s by (cases cs) (simp_all add: decimal_digits_def)
  have "cs \<noteq> [] \<Longrightarrow> \<not> List.member ''xX'' (hd cs) \<and> \<not> List.member ''oO'' (hd cs) \<and>
          \<not> List.member ''bB'' (hd cs)"
    using h by auto
  moreover from c have "c \<noteq> CHR ''+''" and "c \<noteq> CHR ''-''"
    by auto
  ultimately show ?thesis
    unfolding s by (auto simp: parse_radix_def)
qed

lemma BigInt_decimal:
  assumes "decimal_digits s" and "s \<noteq> []" and "parse_digits 10 0 s = Some n"
  shows "BigInt s = Inr (int n)"
  using assms by (simp add: BigInt_def trim_decimal string_to_bigint_decimal)

lemma BigInt_bigint_toString: "0 \<le> k \<Longrightarrow> BigInt (bigint_toString k) = Inr k"
  using BigInt_decimal [OF show_nat_digits show_nat_nonempty parse_digits_show_nat, of "nat k"]
  by (simp add: bigint_toString_def)

lemma decimal_no_dot:
  assumes "decimal_digits s" and "c \<in> set s"
  shows "c \<noteq> CHR ''.''"
proof -
  from assms have "c \<in> set ''0123456789''"
    unfolding decimal_digits_def by blast
  then show ?thesis
    by auto
qed

lemma split_dot_decimal:
  assumes "decimal_digits w" and "decimal_digits f"
  shows "split_dot (w @ CHR ''.'' # f) = (w, f)"
proof -
  have t: "takeWhile (\<lambda>c. c \<noteq> CHR ''.'') (w @ CHR ''.'' # f) = w"
    using decimal_no_dot [OF assms(1)] by (simp add: takeWhile_append2)
  have d: "dropWhile (\<lambda>c. c \<noteq> CHR ''.'') (w @ CHR ''.'' # f) = CHR ''.'' # f"
    using decimal_no_dot [OF assms(1)] by (simp add: dropWhile_append2)
  have "takeWhile (\<lambda>c. c \<noteq> CHR ''.'') f = f"
    using decimal_no_dot [OF assms(2)] by (simp add: takeWhile_eq_all_conv)
  with t d show ?thesis
    by (simp only: split_dot_def list.case)
qed

lemma frac_text_length: "length (show_nat (nat (m mod 1000000))) \<le> 6"
proof -
  have "m mod 1000000 < 1000000"
    by simp
  then have "nat (m mod 1000000) < 1000000"
    by linarith
  then have "nat (m mod 1000000) < 10 ^ 6"
    by simp
  then show ?thesis
    by (rule show_nat_length) simp
qed

lemma zeros_decimal: "decimal_digits (replicate k CHR ''0'')"
  by (simp add: decimal_digits_def)

lemma decimal_digits_append: "decimal_digits (s @ t) = (decimal_digits s \<and> decimal_digits t)"
  unfolding decimal_digits_def by (simp only: set_append ball_Un)

lemma microToQuantity_text:
  assumes "0 \<le> m"
  shows "microToQuantity m =
           show_nat (nat (m div 1000000)) @ CHR ''.'' #
           (replicate (6 - length (show_nat (nat (m mod 1000000)))) CHR ''0'' @
            show_nat (nat (m mod 1000000)))"
proof -
  from assms have "0 \<le> m div 1000000" and "0 \<le> m mod 1000000"
    by simp_all
  then have "bigint_toString (m div 1000000) = show_nat (nat (m div 1000000))"
    and "bigint_toString (m mod 1000000) = show_nat (nat (m mod 1000000))"
    by (simp_all only: bigint_toString_def not_less [symmetric] if_False)
  moreover from assms have "m sdiv 1000000 = m div 1000000" and "m smod 1000000 = m mod 1000000"
    by (simp_all add: sdiv_nonneg_eq_div smod_nonneg_eq_mod)
  ultimately show ?thesis
    by (simp only: microToQuantity_def MICRO_FACTOR_def padStart_def append_Cons append_Nil)
qed

lemma parseQuantityToMicro_microToQuantity:
  assumes "0 \<le> m"
  shows "parseQuantityToMicro (microToQuantity m) = Inr m"
proof -
  define w where "w = show_nat (nat (m div 1000000))"
  define r where "r = show_nat (nat (m mod 1000000))"
  define f where "f = replicate (6 - length r) CHR ''0'' @ r"
  have lr: "length r \<le> 6"
    unfolding r_def by (rule frac_text_length)
  then have lf: "length f = 6"
    by (simp add: f_def)
  then have fne: "f \<noteq> []"
    by auto
  have wne: "w \<noteq> []"
    unfolding w_def by (rule show_nat_nonempty)
  have dw: "decimal_digits w"
    unfolding w_def by (rule show_nat_digits)
  have df: "decimal_digits f"
    unfolding f_def r_def decimal_digits_append
    using zeros_decimal show_nat_digits by blast
  have q: "microToQuantity m = w @ CHR ''.'' # f"
    unfolding w_def f_def r_def using assms by (rule microToQuantity_text)
  have "parse_digits 10 0 f = parse_digits 10 0 r"
    unfolding f_def parse_digits_append parse_digits_zeros by simp
  then have pf: "parse_digits 10 0 f = Some (nat (m mod 1000000))"
    unfolding r_def parse_digits_show_nat .
  have pw: "parse_digits 10 0 w = Some (nat (m div 1000000))"
    unfolding w_def by (rule parse_digits_show_nat)
  from assms have "int (nat (m div 1000000)) = m div 1000000"
    and "int (nat (m mod 1000000)) = m mod 1000000"
    by simp_all
  with BigInt_decimal [OF dw wne pw] BigInt_decimal [OF df fne pf]
  have bw: "BigInt w = Inr (m div 1000000)" and bf: "BigInt f = Inr (m mod 1000000)"
    by simp_all
  from lf have pad: "take 6 (padEnd 6 CHR ''0'' f) = f"
    by (simp add: padEnd_def)
  have "parseQuantityToMicro (w @ CHR ''.'' # f) = Inr (m div 1000000 * 1000000 + m mod 1000000)"
    unfolding parseQuantityToMicro_def split_dot_decimal [OF dw df] fst_conv snd_conv Let_def pad
    using wne fne bw bf by (simp add: MICRO_FACTOR_def)
  then show ?thesis
    unfolding q by simp
qed

subsection \<open>The attributions of a batch\<close>

lemma attribute_each_fields:
  "attribute_each denom S xs = Inr attrs \<Longrightarrow>
     map attributedBudgetUsdCents attrs = map (\<lambda>x. fst (snd x)) xs \<and>
     map attributedCostMicro attrs = map (\<lambda>x. bigint_toString (fst (snd (snd x)))) xs \<and>
     map attributedQuantity attrs = map (\<lambda>x. microToQuantity (snd (snd (snd x)))) xs"
proof (induction denom S xs arbitrary: attrs rule: attribute_each.induct)
  case (1 denom S)
  then show ?case by simp
next
  case (2 denom S contributor budget costAlloc quantityAlloc rest)
  from "2.prems" obtain ppm safeBudget tl' where
    p: "assertSafeInteger ((totalUsdCents contributor * 1000000) sdiv S) ''sharePpm'' = Inr ppm"
    and b: "assertSafeInteger budget ''attributedBudgetUsdCents'' = Inr safeBudget"
    and r: "attribute_each denom S rest = Inr tl'"
    by (auto split: sum.splits)
  from b have sb: "safeBudget = budget"
    by (auto simp: assertSafeInteger_def split: if_splits)
  from "2.IH" [OF p b r] "2.prems" p b r sb show ?case
    by auto
qed

lemma attribute_each_returns:
  assumes "\<forall>x \<in> set xs. fst (snd x) \<le> MAX_SAFE_INTEGER \<and>
             (totalUsdCents (fst x) * 1000000) sdiv S \<le> MAX_SAFE_INTEGER"
  shows "\<exists>attrs. attribute_each denom S xs = Inr attrs"
  using assms
proof (induction denom S xs rule: attribute_each.induct)
  case (1 denom S)
  show ?case by simp
next
  case (2 denom S contributor budget costAlloc quantityAlloc rest)
  from "2.prems"
  have p: "assertSafeInteger ((totalUsdCents contributor * 1000000) sdiv S) ''sharePpm'' =
             Inr ((totalUsdCents contributor * 1000000) sdiv S)"
    and b: "assertSafeInteger budget ''attributedBudgetUsdCents'' = Inr budget"
    by (simp_all add: assertSafeInteger_def)
  from "2.prems" have "\<forall>x \<in> set rest. fst (snd x) \<le> MAX_SAFE_INTEGER \<and>
             (totalUsdCents (fst x) * 1000000) sdiv S \<le> MAX_SAFE_INTEGER"
    by simp
  from "2.IH" [OF p b this] obtain tl' where "attribute_each denom S rest = Inr tl'"
    by blast
  with p b show ?case
    by simp
qed

lemma zip4_columns:
  assumes "length bs = length cs" and "length ks = length cs" and "length qs = length cs"
  shows "map (\<lambda>x. fst (snd x)) (zip cs (zip bs (zip ks qs))) = bs"
    and "map (\<lambda>x. fst (snd (snd x))) (zip cs (zip bs (zip ks qs))) = ks"
    and "map (\<lambda>x. snd (snd (snd x))) (zip cs (zip bs (zip ks qs))) = qs"
    and "map fst (zip cs (zip bs (zip ks qs))) = cs"
proof -
  have s: "map snd (zip cs (zip bs (zip ks qs))) = zip bs (zip ks qs)"
    using assms by simp
  have ss: "map snd (zip bs (zip ks qs)) = zip ks qs"
    using assms by simp
  have "map (\<lambda>x. fst (snd x)) (zip cs (zip bs (zip ks qs))) =
          map fst (map snd (zip cs (zip bs (zip ks qs))))"
    by (simp only: map_map comp_def)
  then show "map (\<lambda>x. fst (snd x)) (zip cs (zip bs (zip ks qs))) = bs"
    unfolding s using assms by simp
  have "map (\<lambda>x. fst (snd (snd x))) (zip cs (zip bs (zip ks qs))) =
          map fst (map snd (map snd (zip cs (zip bs (zip ks qs)))))"
    by (simp only: map_map comp_def)
  then show "map (\<lambda>x. fst (snd (snd x))) (zip cs (zip bs (zip ks qs))) = ks"
    unfolding s ss using assms by simp
  have "map (\<lambda>x. snd (snd (snd x))) (zip cs (zip bs (zip ks qs))) =
          map snd (map snd (map snd (zip cs (zip bs (zip ks qs)))))"
    by (simp only: map_map comp_def)
  then show "map (\<lambda>x. snd (snd (snd x))) (zip cs (zip bs (zip ks qs))) = qs"
    unfolding s ss using assms by simp
  show "map fst (zip cs (zip bs (zip ks qs))) = cs"
    using assms by simp
qed

lemma results_sum_map:
  "\<forall>x \<in> set xs. f x = Inr (g x) \<Longrightarrow> results_sum (map f xs) = Some (sum_list (map g xs))"
  by (induction xs) simp_all

lemma results_sum_BigInt:
  "\<forall>k \<in> set ks. 0 \<le> k \<Longrightarrow>
     results_sum (map BigInt (map bigint_toString ks)) = Some (sum_list ks)"
  using results_sum_map [of ks "\<lambda>k. BigInt (bigint_toString k)" "\<lambda>k. k"]
  by (simp add: BigInt_bigint_toString comp_def)

lemma results_sum_quantity:
  "\<forall>k \<in> set ks. 0 \<le> k \<Longrightarrow>
     results_sum (map parseQuantityToMicro (map microToQuantity ks)) = Some (sum_list ks)"
  using results_sum_map [of ks "\<lambda>k. parseQuantityToMicro (microToQuantity k)" "\<lambda>k. k"]
  by (simp add: parseQuantityToMicro_microToQuantity comp_def)

lemma share_le_million:
  assumes "\<forall>w \<in> set ws. (0::int) \<le> w" and "0 < sum_list ws" and "w \<in> set ws"
  shows "(w * 1000000) sdiv sum_list ws \<le> 1000000"
proof -
  from assms have le: "w \<le> sum_list ws"
    by (intro member_le_sum_list) simp_all
  from assms have "0 \<le> w"
    by simp
  with assms(2) have "(w * 1000000) sdiv sum_list ws = (w * 1000000) div sum_list ws"
    by (simp add: sdiv_nonneg_eq_div)
  also have "\<dots> \<le> (sum_list ws * 1000000) div sum_list ws"
    using le by (intro zdiv_mono1 assms(2)) simp
  also have "\<dots> = 1000000"
    using assms(2) by simp
  finally show ?thesis .
qed

lemma buildContributorAttributions_body:
  assumes tc: "0 < totalContributionUsdCents input"
    and w: "\<forall>c \<in> set (contributors input). 0 \<le> totalUsdCents c"
    and s: "0 < sum_list (map totalUsdCents (contributors input))"
    and b: "0 \<le> appliedBudgetUsdCents input"
    and k: "0 \<le> b_totalCostMicro input"
    and pq: "parseQuantityToMicro (retiredQuantity input) = Inr q"
    and q: "0 \<le> q"
  shows "\<exists>bs ks qs.
           length bs = length (contributors input) \<and> sum_list bs = appliedBudgetUsdCents input \<and>
           (\<forall>x \<in> set bs. 0 \<le> x) \<and>
           length ks = length (contributors input) \<and> sum_list ks = b_totalCostMicro input \<and>
           (\<forall>x \<in> set ks. 0 \<le> x) \<and>
           length qs = length (contributors input) \<and> sum_list qs = q \<and>
           (\<forall>x \<in> set qs. 0 \<le> x) \<and>
           buildContributorAttributions input =
             attribute_each (b_paymentDenom input)
               (sum_list (map totalUsdCents (contributors input)))
               (zip (contributors input) (zip bs (zip ks qs)))"
proof -
  let ?ws = "map totalUsdCents (contributors input)"
  from w have w': "\<forall>w \<in> set ?ws. 0 \<le> w"
    by simp
  from s have ne: "contributors input \<noteq> []"
    by auto
  from allocateProportionally_total [OF b w' s] obtain bs where
    bs: "allocateProportionally (appliedBudgetUsdCents input) ?ws = Inr bs"
      "length bs = length ?ws" "sum_list bs = appliedBudgetUsdCents input" "\<forall>x \<in> set bs. 0 \<le> x"
    by blast
  from allocateProportionally_total [OF k w' s] obtain ks where
    ks: "allocateProportionally (b_totalCostMicro input) ?ws = Inr ks"
      "length ks = length ?ws" "sum_list ks = b_totalCostMicro input" "\<forall>x \<in> set ks. 0 \<le> x"
    by blast
  from allocateProportionally_total [OF q w' s] obtain qs where
    qs: "allocateProportionally q ?ws = Inr qs"
      "length qs = length ?ws" "sum_list qs = q" "\<forall>x \<in> set qs. 0 \<le> x"
    by blast
  have "buildContributorAttributions input =
          attribute_each (b_paymentDenom input) (sum_list ?ws)
            (zip (contributors input) (zip bs (zip ks qs)))"
    using ne tc s pq bs(1) ks(1) qs(1)
    by (simp add: buildContributorAttributions_def Let_def)
  with bs(2-) ks(2-) qs(2-) show ?thesis
    by (intro exI [of _ bs] exI [of _ ks] exI [of _ qs]) simp
qed

lemma allocateProportionally_rounding: "allocateProportionally 2 [1, 1, 1] = Inr [1, 1, 0]"
  by (simp add: allocateProportionally_def Let_def sort_entries_def compare_entries_def
      fill_result_def signed_divide_int_def signed_modulo_int_def upt_rec numeral_eq_Suc)

lemma parseQuantityToMicro_rounding: "parseQuantityToMicro ''0.000002'' = Inr 2"
  by (simp add: parseQuantityToMicro_def split_dot_def padEnd_def BigInt_def trim_def
      is_space_def parse_radix_def digit_val_def MICRO_FACTOR_def Let_def)

text \<open>
  Claim C1. \<open>allocateProportionally total weights\<close> returns, for every total above
  zero and every non-empty list of non-negative weights of positive sum, one allocation
  for each weight, and the allocations sum to the total exactly. Consequently, for a
  batch whose contributors have non-negative amounts of positive sum, with a positive
  total contribution, a non-negative applied budget and cost and a retired quantity that
  reads as a non-negative number of micro-units, every list that
  \<open>buildContributorAttributions\<close> returns has one attribution for each contributor,
  its \<open>attributedBudgetUsdCents\<close> sum to \<open>appliedBudgetUsdCents\<close>, its
  \<open>attributedCostMicro\<close>, read as integers, sum to \<open>totalCostMicro\<close>, and its
  \<open>attributedQuantity\<close>, expanded to micro-units, sum to the micro-units of
  \<open>retiredQuantity\<close>; and the list is returned, nothing thrown, when the applied
  budget is a safe integer.
\<close>

theorem attribution_totals_preserved:
  "(0 < total' \<and> weights \<noteq> [] \<and> (\<forall>w \<in> set weights. 0 \<le> w) \<and> 0 < sum_list weights \<longrightarrow>
      (\<exists>r. allocateProportionally total' weights = Inr r \<and> length r = length weights \<and>
           sum_list r = total')) \<and>
   (0 < totalContributionUsdCents input \<and>
    (\<forall>c \<in> set (contributors input). 0 \<le> totalUsdCents c) \<and>
    0 < sum_list (map totalUsdCents (contributors input)) \<and>
    0 \<le> appliedBudgetUsdCents input \<and> 0 \<le> b_totalCostMicro input \<and>
    parseQuantityToMicro (retiredQuantity input) = Inr q \<and> 0 \<le> q \<longrightarrow>
      (\<forall>attrs. buildContributorAttributions input = Inr attrs \<longrightarrow>
         length attrs = length (contributors input) \<and>
         sum_list (map attributedBudgetUsdCents attrs) = appliedBudgetUsdCents input \<and>
         results_sum (map BigInt (map attributedCostMicro attrs)) = Some (b_totalCostMicro input) \<and>
         results_sum (map parseQuantityToMicro (map attributedQuantity attrs)) = Some q) \<and>
      (appliedBudgetUsdCents input \<le> MAX_SAFE_INTEGER \<longrightarrow>
         (\<exists>attrs. buildContributorAttributions input = Inr attrs)))"
proof (intro conjI impI allI)
  assume "0 < total' \<and> weights \<noteq> [] \<and> (\<forall>w \<in> set weights. 0 \<le> w) \<and> 0 < sum_list weights"
  then have "0 < total'" "weights \<noteq> []" "\<forall>w \<in> set weights. 0 \<le> w" "0 < sum_list weights"
    by simp_all
  from allocateProportionally_positive [OF this]
  show "\<exists>r. allocateProportionally total' weights = Inr r \<and> length r = length weights \<and>
           sum_list r = total'"
    by blast
next
  let ?cs = "contributors input"
  let ?S = "sum_list (map totalUsdCents ?cs)"
  assume h: "0 < totalContributionUsdCents input \<and>
    (\<forall>c \<in> set (contributors input). 0 \<le> totalUsdCents c) \<and>
    0 < sum_list (map totalUsdCents (contributors input)) \<and>
    0 \<le> appliedBudgetUsdCents input \<and> 0 \<le> b_totalCostMicro input \<and>
    parseQuantityToMicro (retiredQuantity input) = Inr q \<and> 0 \<le> q"
  then have tc: "0 < totalContributionUsdCents input"
    and w: "\<forall>c \<in> set ?cs. 0 \<le> totalUsdCents c"
    and s: "0 < ?S"
    and b: "0 \<le> appliedBudgetUsdCents input"
    and k: "0 \<le> b_totalCostMicro input"
    and pq: "parseQuantityToMicro (retiredQuantity input) = Inr q"
    and q: "0 \<le> q"
    by simp_all
  from buildContributorAttributions_body [OF tc w s b k pq q] obtain bs ks qs where
    bs: "length bs = length ?cs" "sum_list bs = appliedBudgetUsdCents input" "\<forall>x \<in> set bs. 0 \<le> x"
    and ks: "length ks = length ?cs" "sum_list ks = b_totalCostMicro input" "\<forall>x \<in> set ks. 0 \<le> x"
    and qs: "length qs = length ?cs" "sum_list qs = q" "\<forall>x \<in> set qs. 0 \<le> x"
    and build: "buildContributorAttributions input =
                  attribute_each (b_paymentDenom input) ?S (zip ?cs (zip bs (zip ks qs)))"
    by blast
  note cols = zip4_columns [OF bs(1) ks(1) qs(1)]
  {
    fix attrs
    assume "buildContributorAttributions input = Inr attrs"
    with build have "attribute_each (b_paymentDenom input) ?S (zip ?cs (zip bs (zip ks qs))) = Inr attrs"
      by simp
    from attribute_each_fields [OF this]
    have f: "map attributedBudgetUsdCents attrs = bs"
      "map attributedCostMicro attrs = map bigint_toString ks"
      "map attributedQuantity attrs = map microToQuantity qs"
      unfolding map_map [symmetric, of bigint_toString "\<lambda>x. fst (snd (snd x))", unfolded comp_def]
        map_map [symmetric, of microToQuantity "\<lambda>x. snd (snd (snd x))", unfolded comp_def] cols
      by simp_all
    from f(1) bs(1) show "length attrs = length (contributors input)"
      by (metis length_map)
    from f(1) bs(2) show "sum_list (map attributedBudgetUsdCents attrs) = appliedBudgetUsdCents input"
      by simp
    from results_sum_BigInt [OF ks(3)] ks(2)
    show "results_sum (map BigInt (map attributedCostMicro attrs)) = Some (b_totalCostMicro input)"
      unfolding f(2) by simp
    from results_sum_quantity [OF qs(3)] qs(2)
    show "results_sum (map parseQuantityToMicro (map attributedQuantity attrs)) = Some q"
      unfolding f(3) by simp
  }
  {
    assume m: "appliedBudgetUsdCents input \<le> MAX_SAFE_INTEGER"
    have "\<forall>x \<in> set (zip ?cs (zip bs (zip ks qs))).
            fst (snd x) \<le> MAX_SAFE_INTEGER \<and> (totalUsdCents (fst x) * 1000000) sdiv ?S \<le> MAX_SAFE_INTEGER"
    proof
      fix x assume x: "x \<in> set (zip ?cs (zip bs (zip ks qs)))"
      then have "fst (snd x) \<in> set (map (\<lambda>x. fst (snd x)) (zip ?cs (zip bs (zip ks qs))))"
        and "fst x \<in> set (map fst (zip ?cs (zip bs (zip ks qs))))"
        by (simp_all only: set_map image_eqI)
      then have xb: "fst (snd x) \<in> set bs" and xc: "fst x \<in> set ?cs"
        unfolding cols by simp_all
      from member_le_sum_list [OF xb] bs(3) bs(2) m have "fst (snd x) \<le> MAX_SAFE_INTEGER"
        by simp
      moreover from w have "\<forall>w \<in> set (map totalUsdCents ?cs). 0 \<le> w"
        by simp
      from share_le_million [OF this s, of "totalUsdCents (fst x)"] xc
      have "(totalUsdCents (fst x) * 1000000) sdiv ?S \<le> MAX_SAFE_INTEGER"
        by (simp add: MAX_SAFE_INTEGER_def)
      ultimately show "fst (snd x) \<le> MAX_SAFE_INTEGER \<and>
          (totalUsdCents (fst x) * 1000000) sdiv ?S \<le> MAX_SAFE_INTEGER"
        by simp
    qed
    from attribute_each_returns [OF this] build
    show "\<exists>attrs. buildContributorAttributions input = Inr attrs"
      by simp
  }
qed

theorem attribution_totals_preserved_witness:
  "(\<exists>r. allocateProportionally 2 [1, 1, 1] = Inr r \<and> length r = length [1, 1, 1 :: int] \<and>
        sum_list r = 2) \<and>
   (\<exists>attrs. buildContributorAttributions rounding_input = Inr attrs \<and>
        length attrs = length (contributors rounding_input) \<and>
        sum_list (map attributedBudgetUsdCents attrs) = appliedBudgetUsdCents rounding_input \<and>
        results_sum (map BigInt (map attributedCostMicro attrs)) =
          Some (b_totalCostMicro rounding_input) \<and>
        results_sum (map parseQuantityToMicro (map attributedQuantity attrs)) = Some 2)"
proof -
  have h: "0 < totalContributionUsdCents rounding_input \<and>
    (\<forall>c \<in> set (contributors rounding_input). 0 \<le> totalUsdCents c) \<and>
    0 < sum_list (map totalUsdCents (contributors rounding_input)) \<and>
    0 \<le> appliedBudgetUsdCents rounding_input \<and> 0 \<le> b_totalCostMicro rounding_input \<and>
    parseQuantityToMicro (retiredQuantity rounding_input) = Inr 2 \<and> 0 \<le> (2::int)"
    by (simp add: rounding_input_def three_cents_def parseQuantityToMicro_rounding)
  have m: "appliedBudgetUsdCents rounding_input \<le> MAX_SAFE_INTEGER"
    by (simp add: rounding_input_def MAX_SAFE_INTEGER_def)
  have a: "0 < (2::int) \<and> [1, 1, 1 :: int] \<noteq> [] \<and> (\<forall>w \<in> set [1, 1, 1 :: int]. 0 \<le> w) \<and>
           0 < sum_list [1, 1, 1 :: int]"
    by simp
  note t = attribution_totals_preserved [of 2 "[1, 1, 1]" rounding_input 2]
  from t a have "\<exists>r. allocateProportionally 2 [1, 1, 1] = Inr r \<and>
      length r = length [1, 1, 1 :: int] \<and> sum_list r = 2"
    by blast
  moreover from t h m obtain attrs where "buildContributorAttributions rounding_input = Inr attrs"
    by blast
  moreover from t h have "\<forall>attrs. buildContributorAttributions rounding_input = Inr attrs \<longrightarrow>
         length attrs = length (contributors rounding_input) \<and>
         sum_list (map attributedBudgetUsdCents attrs) = appliedBudgetUsdCents rounding_input \<and>
         results_sum (map BigInt (map attributedCostMicro attrs)) =
           Some (b_totalCostMicro rounding_input) \<and>
         results_sum (map parseQuantityToMicro (map attributedQuantity attrs)) = Some 2"
    by blast
  ultimately show ?thesis
    by blast
qed

section \<open>Identity attribution: the tag is read back\<close>

lemma trim_fixed:
  assumes "s \<noteq> []" and "\<not> is_space (hd s)" and "\<not> is_space (last s)"
  shows "trim s = s"
proof -
  from assms(1,2) have a: "dropWhile is_space s = s"
    by (cases s) simp_all
  from assms(1,3) have "dropWhile is_space (rev s) = rev s"
    by (cases "rev s") (simp_all add: hd_rev)
  with a show ?thesis
    by (simp add: trim_def)
qed

lemma trimmed_ends:
  assumes t: "trim s = s" and ne: "s \<noteq> []"
  shows "\<not> is_space (hd s)" and "\<not> is_space (last s)"
proof -
  let ?d = "dropWhile is_space s"
  from t have r: "rev s = dropWhile is_space (rev ?d)"
    by (simp add: trim_def rev_swap)
  have "length s = length (dropWhile is_space (rev ?d))"
    using r by (metis length_rev)
  also have "\<dots> \<le> length (rev ?d)"
    by (rule length_dropWhile_le)
  finally have "length s \<le> length ?d"
    by simp
  moreover have "length (takeWhile is_space s) + length ?d = length s"
    by (metis length_append takeWhile_dropWhile_id)
  ultimately have "length (takeWhile is_space s) = 0"
    by linarith
  then have "takeWhile is_space s = []"
    by (simp only: length_0_conv)
  then have d: "?d = s"
    by (metis append_Nil takeWhile_dropWhile_id)
  with ne show "\<not> is_space (hd s)"
    by (metis hd_dropWhile)
  from r d have "dropWhile is_space (rev s) = rev s"
    by simp
  with ne have "\<not> is_space (hd (rev s))"
    by (metis hd_dropWhile rev_is_Nil_conv)
  with ne show "\<not> is_space (last s)"
    by (simp add: hd_rev)
qed

lemma normalize_trimmed: "s \<noteq> [] \<Longrightarrow> trim s = s \<Longrightarrow> normalize (Some s) = Some s"
  by (simp add: normalize_def)

lemma not_space_brackets: "\<not> is_space CHR ''[''" "\<not> is_space CHR '']''"
  by (simp_all add: is_space_def)

lemma not_base64url_marks: "\<not> is_base64url CHR '']''" "\<not> is_base64url CHR '':''"
  by (simp_all add: is_base64url_def)

lemma tag_at_Some:
  assumes "tag_at s = Some g"
  shows "\<exists>ws trailing. s = ws @ ''[identity:'' @ g @ CHR '']'' # trailing \<and>
           list_all is_space ws \<and> list_all is_space trailing \<and> g \<noteq> [] \<and>
           list_all is_base64url g"
proof -
  define afterSpace where "afterSpace = dropWhile is_space s"
  define body where "body = drop 10 afterSpace"
  from assms have t: "take 10 afterSpace = ''[identity:''"
    unfolding tag_at_def afterSpace_def Let_def by (auto split: if_splits)
  with assms have g: "g = takeWhile is_base64url body" "g \<noteq> []"
    and "\<exists>trailing. dropWhile is_base64url body = CHR '']'' # trailing \<and> list_all is_space trailing"
    unfolding tag_at_def afterSpace_def [symmetric] body_def [symmetric] Let_def
    by (auto split: if_splits list.splits)
  then obtain trailing where d: "dropWhile is_base64url body = CHR '']'' # trailing"
    and tr: "list_all is_space trailing"
    by blast
  have "body = g @ CHR '']'' # trailing"
    unfolding g(1) d [symmetric] by simp
  moreover have "afterSpace = take 10 afterSpace @ body"
    by (simp add: body_def)
  moreover have "s = takeWhile is_space s @ afterSpace"
    by (simp add: afterSpace_def)
  ultimately have "s = takeWhile is_space s @ ''[identity:'' @ g @ CHR '']'' # trailing"
    using t by metis
  moreover have "list_all is_space (takeWhile is_space s)"
    by (simp add: list_all_iff) (meson set_takeWhileD)
  moreover have "list_all is_base64url g"
    unfolding g(1) by (simp add: list_all_iff) (meson set_takeWhileD)
  ultimately show ?thesis
    using tr g(2) by blast
qed

lemma takeWhile_all_then:
  "list_all P g \<Longrightarrow> \<not> P c \<Longrightarrow> takeWhile P (g @ c # rest) = g"
  by (induction g) simp_all

lemma dropWhile_all_then:
  "list_all P g \<Longrightarrow> \<not> P c \<Longrightarrow> dropWhile P (g @ c # rest) = c # rest"
  by (induction g) simp_all

lemma tag_at_tag:
  assumes "list_all is_base64url g" and "g \<noteq> []"
  shows "tag_at ('' [identity:'' @ g @ '']'') = Some g"
proof -
  have a: "dropWhile is_space ('' [identity:'' @ g @ '']'') = ''[identity:'' @ g @ '']''"
    by (simp add: is_space_def)
  have t: "take 10 (''[identity:'' @ g @ '']'') = ''[identity:''"
    and d: "drop 10 (''[identity:'' @ g @ '']'') = g @ '']''"
    by simp_all
  have tw: "takeWhile is_base64url (g @ '']'') = g"
    and dw: "dropWhile is_base64url (g @ '']'') = '']''"
    using takeWhile_all_then [OF assms(1) not_base64url_marks(1), of "[]"]
      dropWhile_all_then [OF assms(1) not_base64url_marks(1), of "[]"]
    by simp_all
  show ?thesis
    unfolding tag_at_def a Let_def t d tw dw using assms(2) by simp
qed

lemma last_snoc_eq:
  assumes "xs @ [c] = ys @ c' # zs" and "zs \<noteq> []"
  shows "last zs = c"
proof -
  have "last (xs @ [c]) = c"
    by simp
  moreover from assms(2) have "last (ys @ c' # zs) = last zs"
    by simp
  ultimately show ?thesis
    using assms(1) by metis
qed

lemma tag_text_unique:
  assumes eq: "r @ '' [identity:'' @ g @ '']'' = ws @ ''[identity:'' @ g' @ CHR '']'' # trailing"
    and g: "list_all is_base64url g" and g': "list_all is_base64url g'"
    and ws: "list_all is_space ws" and tr: "list_all is_space trailing"
  shows "ws = r @ '' ''"
proof -
  from eq have eq': "(r @ '' [identity:'' @ g) @ [CHR '']''] =
      (ws @ ''[identity:'' @ g') @ CHR '']'' # trailing"
    by simp
  have "trailing = []"
  proof (rule ccontr)
    assume ne: "trailing \<noteq> []"
    from last_snoc_eq [OF eq' ne] have "last trailing = CHR '']''" .
    moreover from ne tr have "is_space (last trailing)"
      by (simp add: list_all_iff)
    ultimately show False
      by (simp add: not_space_brackets)
  qed
  with eq' have "(r @ '' [identity:'' @ g) @ '']'' = (ws @ ''[identity:'' @ g') @ '']''"
    by simp
  then have e: "r @ '' [identity:'' @ g = ws @ ''[identity:'' @ g'"
    by (simp only: append_same_eq)
  then have "rev (r @ '' [identity:'' @ g) = rev (ws @ ''[identity:'' @ g')"
    by (rule arg_cong)
  then have re: "rev g @ CHR '':'' # rev (r @ '' [identity'') =
      rev g' @ CHR '':'' # rev (ws @ ''[identity'')"
    by simp
  from g g' have "list_all is_base64url (rev g)" and "list_all is_base64url (rev g')"
    by (simp_all add: list_all_iff)
  then have "takeWhile is_base64url (rev g @ CHR '':'' # rev (r @ '' [identity'')) = rev g"
    and "takeWhile is_base64url (rev g' @ CHR '':'' # rev (ws @ ''[identity'')) = rev g'"
    by (simp_all only: takeWhile_all_then not_base64url_marks not_False_eq_True)
  with re have "rev g = rev g'"
    by simp
  then have "g = g'"
    by simp
  with e have "(r @ '' '') @ ''[identity:'' @ g = ws @ ''[identity:'' @ g"
    by simp
  then show ?thesis
    by (simp only: append_same_eq)
qed

lemma tag_at_inside_None:
  assumes ne: "r \<noteq> []" and l: "\<not> is_space (last r)" and g: "list_all is_base64url g"
  shows "tag_at (r @ '' [identity:'' @ g @ '']'') = None"
proof (rule ccontr)
  assume "tag_at (r @ '' [identity:'' @ g @ '']'') \<noteq> None"
  then obtain g' where "tag_at (r @ '' [identity:'' @ g @ '']'') = Some g'"
    by blast
  from tag_at_Some [OF this] obtain ws trailing where
    eq: "r @ '' [identity:'' @ g @ '']'' = ws @ ''[identity:'' @ g' @ CHR '']'' # trailing"
    and ws: "list_all is_space ws" and tr: "list_all is_space trailing"
    and g': "list_all is_base64url g'"
    by blast
  from tag_text_unique [OF eq g g' ws tr] have "ws = r @ '' ''" .
  with ws ne have "is_space (last r)"
    by (simp add: list_all_iff)
  with l show False
    by simp
qed

lemma IDENTITY_TAG_PATTERN_exec_here:
  "tag_at t = Some g \<Longrightarrow> IDENTITY_TAG_PATTERN_exec t = Some ([], g)"
  by (cases t) simp_all

lemma IDENTITY_TAG_PATTERN_exec_leftmost:
  assumes "\<forall>i < length r. tag_at (drop i r @ t) = None" and "tag_at t = Some g"
  shows "IDENTITY_TAG_PATTERN_exec (r @ t) = Some (r, g)"
  using assms
proof (induction r)
  case Nil
  then show ?case
    by (simp add: IDENTITY_TAG_PATTERN_exec_here)
next
  case (Cons c cs)
  from Cons.prems(1) have "tag_at (drop 0 (c # cs) @ t) = None"
    by blast
  then have h: "tag_at (c # cs @ t) = None"
    by simp
  have "\<forall>i < length cs. tag_at (drop i cs @ t) = None"
  proof (intro allI impI)
    fix i assume "i < length cs"
    then have "Suc i < length (c # cs)"
      by simp
    with Cons.prems(1) have "tag_at (drop (Suc i) (c # cs) @ t) = None"
      by blast
    then show "tag_at (drop i cs @ t) = None"
      by simp
  qed
  from Cons.IH [OF this Cons.prems(2)] h show ?case
    by simp
qed

lemma IDENTITY_TAG_PATTERN_exec_appended:
  assumes ne: "r \<noteq> []" and l: "\<not> is_space (last r)"
    and g: "list_all is_base64url g" and gne: "g \<noteq> []"
  shows "IDENTITY_TAG_PATTERN_exec (r @ '' [identity:'' @ g @ '']'') = Some (r, g)"
proof (rule IDENTITY_TAG_PATTERN_exec_leftmost)
  show "tag_at ('' [identity:'' @ g @ '']'') = Some g"
    using g gne by (rule tag_at_tag)
  show "\<forall>i < length r. tag_at (drop i r @ '' [identity:'' @ g @ '']'') = None"
  proof (intro allI impI)
    fix i assume i: "i < length r"
    then have "drop i r \<noteq> []"
      by simp
    moreover from i have "last (drop i r) = last r"
      by simp
    ultimately show "tag_at (drop i r @ '' [identity:'' @ g @ '']'') = None"
      using l g by (intro tag_at_inside_None) simp_all
  qed
qed

subsection \<open>The decoded payload\<close>

lemma property_payload_json:
  "property (payload_json p) ''v'' = Inr (Some (JNumber (real (p_v p))))"
  "property (payload_json p) ''method'' = Inr (Some (JString (p_method p)))"
  "property (payload_json p) ''name'' = Inr (map_option JString (p_name p))"
  "property (payload_json p) ''email'' = Inr (map_option JString (p_email p))"
  "property (payload_json p) ''provider'' = Inr (map_option JString (p_provider p))"
  "property (payload_json p) ''subject'' = Inr (map_option JString (p_subject p))"
  by (simp_all add: property_def payload_json_def opt_entry_def split: option.splits)

lemma normalize_fixed_nonempty: "normalize (Some s) = Some s \<Longrightarrow> s \<noteq> []"
  by (auto simp: normalize_def split: if_splits)

lemma normalize_value_fixed:
  assumes "normalize v = v"
  shows "normalize_value (map_option JString v) = Inr v"
proof (cases v)
  case None
  then show ?thesis
    by (simp add: normalize_value_def falsy_def)
next
  case (Some s)
  with assms have "s \<noteq> []"
    by (simp add: normalize_fixed_nonempty)
  with assms Some show ?thesis
    by (simp add: normalize_value_def falsy_def)
qed

lemma normalizeEmail_value_fixed:
  assumes "normalizeEmail v = v"
  shows "normalizeEmail_value (map_option JString v) = Inr v"
proof (cases v)
  case None
  then show ?thesis
    by (simp add: normalizeEmail_value_def normalize_value_def falsy_def)
next
  case (Some s)
  with assms obtain t where t: "normalize (Some s) = Some t" and l: "toLowerCase t = s"
    by (auto simp: normalizeEmail_def)
  from t have "s \<noteq> []"
    by (auto simp: normalize_def split: if_splits)
  with t l Some show ?thesis
    by (simp add: normalizeEmail_value_def normalize_value_def falsy_def)
qed

lemma if_truthy_fixed: "normalize v = v \<Longrightarrow> if_truthy v = v"
  by (cases v) (auto simp: if_truthy_def truthy_def normalize_def)

lemma if_truthy_fixed_email: "normalizeEmail v = v \<Longrightarrow> if_truthy v = v"
  by (cases v) (auto simp: if_truthy_def truthy_def normalizeEmail_def normalize_def)

lemma method_text_cases:
  "m \<noteq> AuthNone \<Longrightarrow>
     method_text m = ''manual'' \<or> method_text m = ''email'' \<or> method_text m = ''oauth''"
  by (cases m) simp_all

lemma identity_fields_payload:
  assumes "normalize (p_name p) = p_name p" and "normalizeEmail (p_email p) = p_email p"
    and "normalize (p_provider p) = p_provider p" and "normalize (p_subject p) = p_subject p"
  shows "identity_fields (payload_json p) m =
           Inr \<lparr>p_v = 1, p_method = m, p_name = p_name p, p_email = p_email p,
                p_provider = p_provider p, p_subject = p_subject p\<rparr>"
  using assms
  by (simp add: identity_fields_def property_payload_json normalize_value_fixed
      normalizeEmail_value_fixed)

lemma tag_at_no_bracket: "CHR ''['' \<notin> set s \<Longrightarrow> tag_at s = None"
proof (rule ccontr)
  assume n: "CHR ''['' \<notin> set s" and "tag_at s \<noteq> None"
  then obtain g where "tag_at s = Some g"
    by blast
  from tag_at_Some [OF this] n show False
    by auto
qed

lemma IDENTITY_TAG_PATTERN_exec_no_bracket:
  "CHR ''['' \<notin> set s \<Longrightarrow> IDENTITY_TAG_PATTERN_exec s = None"
  by (induction s) (simp_all add: tag_at_no_bracket)

text \<open>A reason without a tag is returned as it is, as in the helpers' test.\<close>

lemma parseAttributedReason_plain:
  "parseAttributedReason decode (Some ''Plain reason text'') =
     \<lparr>reasonText = ''Plain reason text'', identity = None\<rparr>"
proof -
  have "trim ''Plain reason text'' = ''Plain reason text''"
    by (rule trim_fixed) (simp_all add: is_space_def)
  then have "normalize (Some ''Plain reason text'') = Some ''Plain reason text''"
    by (simp add: normalize_def)
  moreover have "IDENTITY_TAG_PATTERN_exec ''Plain reason text'' = None"
    by (rule IDENTITY_TAG_PATTERN_exec_no_bracket) simp
  ultimately show ?thesis
    by (simp add: parseAttributedReason_def)
qed

lemma appended_reason_normal:
  assumes ne: "reason \<noteq> []" and t: "trim reason = reason"
  shows "normalize (Some (reason @ '' [identity:'' @ g @ '']'')) =
           Some (reason @ '' [identity:'' @ g @ '']'')"
proof -
  let ?full = "reason @ '' [identity:'' @ g @ '']''"
  from trimmed_ends(1) [OF t ne] ne have "\<not> is_space (hd ?full)"
    by simp
  moreover have "last ?full = CHR '']''"
    by simp
  then have "\<not> is_space (last ?full)"
    by (simp only: not_space_brackets not_False_eq_True)
  moreover have "?full \<noteq> []"
    using ne by simp
  ultimately have "trim ?full = ?full"
    by (intro trim_fixed)
  with \<open>?full \<noteq> []\<close> show ?thesis
    by (intro normalize_trimmed)
qed

lemma decode_identity_payload:
  assumes d: "decode encoded = Inr (payload_json p)"
    and v: "p_v p = 1"
    and m: "p_method p = ''manual'' \<or> p_method p = ''email'' \<or> p_method p = ''oauth''"
    and n: "normalize (p_name p) = p_name p" "normalizeEmail (p_email p) = p_email p"
      "normalize (p_provider p) = p_provider p" "normalize (p_subject p) = p_subject p"
    and r: "replace_tag rawReason = before" "before \<noteq> []"
  shows "decode_identity decode rawReason encoded =
           Inr \<lparr>reasonText = before,
                identity = Some \<lparr>p_v = 1, p_method = p_method p, p_name = p_name p,
                                  p_email = p_email p, p_provider = p_provider p,
                                  p_subject = p_subject p\<rparr>\<rparr>"
proof -
  have "projr (property (payload_json p) ''method'') = Some (JString (p_method p))"
    by (simp add: property_payload_json)
  moreover have "property (payload_json p) ''v'' = Inr (Some (JNumber 1))"
    using v by (simp add: property_payload_json)
  moreover note identity_fields_payload [OF n, of "p_method p"]
  ultimately show ?thesis
    using d m r by (auto simp: decode_identity_def Let_def)
qed

text \<open>
  Claim C4. Let \<open>reason\<close> be a non-empty trimmed text and \<open>ident\<close> an identity whose
  method is not \<open>none\<close> and whose name, provider and subject are fixed by \<open>normalize\<close>
  and whose email is fixed by \<open>normalizeEmail\<close>. On a platform whose decoding gives
  back the payload's object for the payload's code, a non-empty text of the base64url
  alphabet, \<open>parseAttributedReason (appendIdentityToReason reason ident)\<close> is exactly
  \<open>reason\<close> together with an identity of the same method, name, email, provider and
  subject.
\<close>

theorem parseAttributedReason_round_trip:
  assumes ne: "reason \<noteq> []" and t: "trim reason = reason"
    and m: "authMethod ident \<noteq> AuthNone"
    and n: "normalize (ia_beneficiaryName ident) = ia_beneficiaryName ident"
      "normalizeEmail (ia_beneficiaryEmail ident) = ia_beneficiaryEmail ident"
      "normalize (ia_authProvider ident) = ia_authProvider ident"
      "normalize (ia_authSubject ident) = ia_authSubject ident"
    and d: "decode (encode (payload_of ident)) = Inr (payload_json (payload_of ident))"
    and e: "encode (payload_of ident) \<noteq> []" "list_all is_base64url (encode (payload_of ident))"
  shows "parseAttributedReason decode (Some (appendIdentityToReason encode reason ident)) =
           \<lparr>reasonText = reason,
            identity = Some \<lparr>p_v = 1, p_method = method_text (authMethod ident),
                              p_name = ia_beneficiaryName ident,
                              p_email = ia_beneficiaryEmail ident,
                              p_provider = ia_authProvider ident,
                              p_subject = ia_authSubject ident\<rparr>\<rparr>"
proof -
  let ?p = "payload_of ident"
  let ?g = "encode ?p"
  let ?full = "reason @ '' [identity:'' @ ?g @ '']''"
  have p: "p_v ?p = 1" "p_method ?p = method_text (authMethod ident)"
    "p_name ?p = ia_beneficiaryName ident" "p_email ?p = ia_beneficiaryEmail ident"
    "p_provider ?p = ia_authProvider ident" "p_subject ?p = ia_authSubject ident"
    using n by (simp_all add: payload_of_def if_truthy_fixed if_truthy_fixed_email)
  from m have a: "appendIdentityToReason encode reason ident = ?full"
    by (simp add: appendIdentityToReason_def)
  have nf: "normalize (Some ?full) = Some ?full"
    using ne t by (rule appended_reason_normal)
  have x: "IDENTITY_TAG_PATTERN_exec ?full = Some (reason, ?g)"
    using ne trimmed_ends(2) [OF t ne] e(2) e(1) by (rule IDENTITY_TAG_PATTERN_exec_appended)
  then have rt: "replace_tag ?full = reason"
    by (simp add: replace_tag_def)
  have pm: "p_method ?p = ''manual'' \<or> p_method ?p = ''email'' \<or> p_method ?p = ''oauth''"
    unfolding p(2) using m by (rule method_text_cases)
  have pn: "normalize (p_name ?p) = p_name ?p" "normalizeEmail (p_email ?p) = p_email ?p"
    "normalize (p_provider ?p) = p_provider ?p" "normalize (p_subject ?p) = p_subject ?p"
    unfolding p using n by simp_all
  have di: "decode_identity decode ?full ?g =
      Inr \<lparr>reasonText = reason,
           identity = Some \<lparr>p_v = 1, p_method = p_method ?p, p_name = p_name ?p,
                             p_email = p_email ?p, p_provider = p_provider ?p,
                             p_subject = p_subject ?p\<rparr>\<rparr>"
    using d p(1) pm pn rt ne by (rule decode_identity_payload)
  show ?thesis
    unfolding a parseAttributedReason_def nf Let_def option.case x prod.case di sum.case p
    using e(1) by simp
qed

lemma alice_appended:
  "appendIdentityToReason alice_encode ''Funding regenerative impact'' alice_identity =
     ''Funding regenerative impact [identity:'' @ alice_encoded @ '']''"
  by (simp add: appendIdentityToReason_def alice_encode_def alice_identity_def)

theorem parseAttributedReason_round_trip_witness:
  "parseAttributedReason alice_decode
     (Some (appendIdentityToReason alice_encode ''Funding regenerative impact'' alice_identity)) =
   \<lparr>reasonText = ''Funding regenerative impact'',
    identity = Some \<lparr>p_v = 1, p_method = ''oauth'', p_name = Some ''Alice'',
                      p_email = Some ''alice@example.com'', p_provider = Some ''google'',
                      p_subject = Some ''sub-123''\<rparr>\<rparr>"
proof -
  have ne: "''Funding regenerative impact'' \<noteq> []"
    by simp
  have t: "trim ''Funding regenerative impact'' = ''Funding regenerative impact''"
    by (rule trim_fixed) (simp_all add: is_space_def)
  have m: "authMethod alice_identity \<noteq> AuthNone"
    by (simp add: alice_identity_def)
  have tr: "trim ''Alice'' = ''Alice''" "trim ''alice@example.com'' = ''alice@example.com''"
    "trim ''google'' = ''google''" "trim ''sub-123'' = ''sub-123''"
    by (rule trim_fixed; simp add: is_space_def)+
  have lc: "toLowerCase ''alice@example.com'' = ''alice@example.com''"
    by (simp add: toLowerCase_def to_lower_char_def)
  have n: "normalize (ia_beneficiaryName alice_identity) = ia_beneficiaryName alice_identity"
    "normalizeEmail (ia_beneficiaryEmail alice_identity) = ia_beneficiaryEmail alice_identity"
    "normalize (ia_authProvider alice_identity) = ia_authProvider alice_identity"
    "normalize (ia_authSubject alice_identity) = ia_authSubject alice_identity"
    by (simp_all add: alice_identity_def normalize_def normalizeEmail_def tr lc)
  have pj: "payload_json (payload_of alice_identity) =
      JObject [(''v'', JNumber 1), (''method'', JString ''oauth''),
               (''name'', JString ''Alice''), (''email'', JString ''alice@example.com''),
               (''provider'', JString ''google''), (''subject'', JString ''sub-123'')]"
    by (simp add: payload_json_def payload_of_def alice_identity_def if_truthy_def truthy_def
        opt_entry_def)
  have d: "alice_decode (alice_encode (payload_of alice_identity)) =
      Inr (payload_json (payload_of alice_identity))"
    unfolding pj by (simp add: alice_decode_def alice_encode_def)
  have e: "alice_encode (payload_of alice_identity) \<noteq> []"
    "list_all is_base64url (alice_encode (payload_of alice_identity))"
    by (simp_all add: alice_encode_def alice_encoded_def is_base64url_def)
  from parseAttributedReason_round_trip
    [where decode = alice_decode and encode = alice_encode, OF ne t m n d e]
  show ?thesis
    by (simp add: alice_identity_def)
qed


end
